theory Spec2Isabelle
  imports Complex_Main "HOL-Library.Monad_Syntax"
begin

section \<open>Numbers\<close>

text \<open>
  JavaScript numbers are modelled by exact reals: the rounding and the overflow of
  IEEE doubles are not represented.  Integer-valued quantities (the microsecond
  accumulator) are \<open>int\<close>; doubles are exact on them up to \<open>2^53\<close>.

  A JavaScript division never throws: a zero divisor yields \<open>Infinity\<close> or \<open>NaN\<close>,
  and in the functions below such a value always reaches the result (through a product
  with zero or a sum).  The model makes that visible: \<open>jsdiv\<close> is \<open>None\<close> on a zero
  divisor, and a result \<open>None\<close> stands for "a non-finite number has entered the result".
  With finite inputs and no overflow, a zero divisor is the only source of such values.
\<close>

definition jsdiv :: "real \<Rightarrow> real \<Rightarrow> real option" where
  "jsdiv a b = (if b = 0 then None else Some (a / b))"

text \<open>\<open>Math.round(x)\<close>: the nearest integer, halves towards plus infinity.\<close>

definition Math_round :: "real \<Rightarrow> int" where
  "Math_round v = \<lfloor>v + 1 / 2\<rfloor>"

text \<open>A \<open>for (k = lo; k < hi; k++)\<close> loop over a state, stopping at the first failure.\<close>

primrec forEach :: "nat list \<Rightarrow> (nat \<Rightarrow> 's \<Rightarrow> 's option) \<Rightarrow> 's \<Rightarrow> 's option" where
  "forEach [] f s = Some s"
| "forEach (k # ks) f s = (case f k s of None \<Rightarrow> None | Some s' \<Rightarrow> forEach ks f s')"

text \<open>\<open>xs.map((s, i) => f(s, i))\<close>: map with the index.\<close>

definition mapi :: "('a \<Rightarrow> nat \<Rightarrow> 'b) \<Rightarrow> 'a list \<Rightarrow> 'b list" where
  "mapi f xs = map (\<lambda>(s, i). f s i) (zip xs [0..<length xs])"

section \<open>Vector\<close>

text \<open>
  \<^verbatim>\<open>class Vector\<close> with fields \<open>x\<close>, \<open>y\<close>, \<open>z\<close> (here \<open>vx\<close>, \<open>vy\<close>, \<open>vz\<close>) and
  its methods; every method returns a new vector.
\<close>

datatype Vector = Vector (vx: real) (vy: real) (vz: real)

definition add :: "Vector \<Rightarrow> Vector \<Rightarrow> Vector" where
  "add u v = Vector (vx u + vx v) (vy u + vy v) (vz u + vz v)"

definition sub :: "Vector \<Rightarrow> Vector \<Rightarrow> Vector" where
  "sub u v = Vector (vx u - vx v) (vy u - vy v) (vz u - vz v)"

definition mult :: "Vector \<Rightarrow> real \<Rightarrow> Vector" where
  "mult u s = Vector (vx u * s) (vy u * s) (vz u * s)"

definition mag :: "Vector \<Rightarrow> real" where
  "mag u = sqrt (vx u * vx u + vy u * vy u + vz u * vz u)"

definition dist_v :: "Vector \<Rightarrow> Vector \<Rightarrow> real" where
  "dist_v u v = sqrt ((vx u - vx v) ^ 2 + (vy u - vy v) ^ 2 + (vz u - vz v) ^ 2)"

definition clone :: "Vector \<Rightarrow> Vector" where
  "clone u = Vector (vx u) (vy u) (vz u)"

section \<open>Bodies\<close>

text \<open>
  The physics state of a body is \<open>{pos, vel, mass}\<close>.  A configuration entry may carry
  the rendering hints \<open>radius\<close> and \<open>color\<close>; a body of the live engine always has them.
\<close>

record body =
  pos :: Vector
  vel :: Vector
  mass :: real

record config = body +
  cfg_radius :: "real option"
  cfg_color :: "nat option"

record live_body = body +
  radius :: real
  color :: nat

section \<open>PhysicsEngine\<close>

subsection \<open>getAccelerations\<close>

text \<open>
  The body of the inner loop of \<open>getAccelerations\<close> for the pair \<open>(i, j)\<close>, \<open>i < j\<close>.
  It divides by \<open>distSq\<close>, by \<open>rMag\<close> and by the two masses.
\<close>

definition pairForce ::
  "real \<Rightarrow> real \<Rightarrow> 'a body_scheme list \<Rightarrow> nat \<Rightarrow> nat \<Rightarrow> Vector list \<Rightarrow> Vector list option" where
  "pairForce G softening state i j acc =
     (let rVec = sub (pos (state ! j)) (pos (state ! i));
          rMag = mag rVec;
          distSq = rMag * rMag + softening ^ 2
      in do {
        fVal \<leftarrow> jsdiv (G * mass (state ! i) * mass (state ! j)) distSq;
        q \<leftarrow> jsdiv fVal rMag;
        let fVec = mult rVec q;
        ri \<leftarrow> jsdiv 1 (mass (state ! i));
        let acc1 = acc[i := add (acc ! i) (mult fVec ri)];
        rj \<leftarrow> jsdiv 1 (mass (state ! j));
        Some (acc1[j := sub (acc1 ! j) (mult fVec rj)])
      })"

definition getAccelerations ::
  "real \<Rightarrow> real \<Rightarrow> 'a body_scheme list \<Rightarrow> Vector list option" where
  "getAccelerations G softening state =
     (let n = length state;
          acc = replicate n (Vector 0 0 0)
      in forEach [0..<n] (\<lambda>i. forEach [i + 1..<n] (pairForce G softening state i)) acc)"

subsection \<open>integrate (RK4)\<close>

text \<open>
  \<open>integrate(dt)\<close> of the application's engine, which is \<open>step(dt)\<close> of js/physics.js
  word for word.  The step size is \<open>h\<close> here.  \<open>stage\<close> is the probe state
  \<open>state.map((s, i) => ({pos: s.pos.add(v[i].mult(k)), vel: s.vel.add(a[i].mult(k)), mass: s.mass}))\<close>.
\<close>

definition stage :: "body list \<Rightarrow> Vector list \<Rightarrow> Vector list \<Rightarrow> real \<Rightarrow> body list" where
  "stage state v a k =
     mapi (\<lambda>s i. \<lparr>pos = add (pos s) (mult (v ! i) k),
                   vel = add (vel s) (mult (a ! i) k),
                   mass = mass s\<rparr>) state"

text \<open>The body of the final loop, which writes \<open>this.bodies[i].vel\<close> and \<open>this.bodies[i].pos\<close>.\<close>

definition commit ::
  "real \<Rightarrow> Vector list \<Rightarrow> Vector list \<Rightarrow> Vector list \<Rightarrow> Vector list
   \<Rightarrow> Vector list \<Rightarrow> Vector list \<Rightarrow> Vector list \<Rightarrow> Vector list
   \<Rightarrow> nat \<Rightarrow> 'a body_scheme list \<Rightarrow> 'a body_scheme list" where
  "commit h a1 a2 a3 a4 v1 v2 v3 v4 i bodies =
     (let dv = mult (add (add (add (a1 ! i) (mult (a2 ! i) 2)) (mult (a3 ! i) 2)) (a4 ! i)) (h / 6);
          dx = mult (add (add (add (v1 ! i) (mult (v2 ! i) 2)) (mult (v3 ! i) 2)) (v4 ! i)) (h / 6);
          bodies1 = bodies[i := (bodies ! i)\<lparr>vel := add (vel (bodies ! i)) dv\<rparr>]
      in bodies1[i := (bodies1 ! i)\<lparr>pos := add (pos (bodies1 ! i)) dx\<rparr>])"

definition integrate ::
  "real \<Rightarrow> real \<Rightarrow> real \<Rightarrow> 'a body_scheme list \<Rightarrow> 'a body_scheme list option" where
  "integrate G softening h bodies =
     (let state = map (\<lambda>b. \<lparr>pos = clone (pos b), vel = clone (vel b), mass = mass b\<rparr>) bodies
      in do {
        a1 \<leftarrow> getAccelerations G softening state;
        let v1 = map vel state;
        let s2 = stage state v1 a1 (h * 0.5);
        a2 \<leftarrow> getAccelerations G softening s2;
        let v2 = map vel s2;
        let s3 = stage state v2 a2 (h * 0.5);
        a3 \<leftarrow> getAccelerations G softening s3;
        let v3 = map vel s3;
        let s4 = stage state v3 a3 h;
        a4 \<leftarrow> getAccelerations G softening s4;
        let v4 = map vel s4;
        Some (fold (commit h a1 a2 a3 a4 v1 v2 v3 v4) [0..<length bodies] bodies)
      })"

subsection \<open>getTotalEnergy and isUnstable\<close>

definition getTotalEnergy :: "real \<Rightarrow> 'a body_scheme list \<Rightarrow> real option" where
  "getTotalEnergy G bodies =
     (let n = length bodies
      in do {
        (ke, pe) \<leftarrow> forEach [0..<n]
          (\<lambda>i (ke, pe). do {
             let ke' = ke + 0.5 * mass (bodies ! i) * (mag (vel (bodies ! i))) ^ 2;
             pe' \<leftarrow> forEach [i + 1..<n]
               (\<lambda>j pe. do {
                  q \<leftarrow> jsdiv (G * mass (bodies ! i) * mass (bodies ! j))
                             (dist_v (pos (bodies ! i)) (pos (bodies ! j)));
                  Some (pe - q)
                }) pe;
             Some (ke', pe')
           }) (0, 0);
        Some (ke + pe)
      })"

text \<open>
  \<open>isUnstable(threshold = 5000)\<close> of js/physics.js: the \<open>for (let b of this.bodies)\<close>
  loop returns at the first body beyond the threshold.  An omitted argument is \<open>None\<close>.
\<close>

fun anyBeyond :: "real \<Rightarrow> 'a body_scheme list \<Rightarrow> bool" where
  "anyBeyond threshold [] = False"
| "anyBeyond threshold (b # bs) = (if mag (pos b) > threshold then True else anyBeyond threshold bs)"

definition isUnstable :: "real option \<Rightarrow> 'a body_scheme list \<Rightarrow> bool" where
  "isUnstable threshold bodies =
     anyBeyond (case threshold of None \<Rightarrow> 5000 | Some t \<Rightarrow> t) bodies"

section \<open>HeatmapExplorer\<close>

text \<open>
  The explorer indexes its bodies with literal bounds, so an index can miss the array:
  reading a property of \<open>undefined\<close> throws a \<open>TypeError\<close>.  \<open>NonFinite\<close> marks a division
  by zero, as \<open>None\<close> does above.
\<close>

datatype fault = TypeError | NonFinite

definition bindF :: "fault + 'a \<Rightarrow> ('a \<Rightarrow> fault + 'b) \<Rightarrow> fault + 'b" where
  "bindF m f = (case m of Inl e \<Rightarrow> Inl e | Inr v \<Rightarrow> f v)"

definition finite_or :: "'a option \<Rightarrow> fault + 'a" where
  "finite_or m = (case m of None \<Rightarrow> Inl NonFinite | Some v \<Rightarrow> Inr v)"

text \<open>\<open>bodies[k]\<close> followed by a property access.\<close>

definition element :: "'a list \<Rightarrow> nat \<Rightarrow> fault + 'a" where
  "element xs k = (if k < length xs then Inr (xs ! k) else Inl TypeError)"

primrec forEachF :: "nat list \<Rightarrow> (nat \<Rightarrow> 's \<Rightarrow> fault + 's) \<Rightarrow> 's \<Rightarrow> fault + 's" where
  "forEachF [] f s = Inr s"
| "forEachF (k # ks) f s = (case f k s of Inl e \<Rightarrow> Inl e | Inr s' \<Rightarrow> forEachF ks f s')"

text \<open>
  The constructor's \<open>res = 200\<close> and \<open>baseRange = 8.0\<close> are never assigned again; the
  local constants of \<open>simStability\<close> are
  \<open>steps = 1000, dt = 0.2, G = 1000, esc = 6000 * 6000\<close>.
\<close>

definition res :: real where "res = 200"
definition baseRange :: real where "baseRange = 8"
definition sim_steps :: nat where "sim_steps = 1000"
definition sim_dt :: real where "sim_dt = 0.2"
definition sim_G :: real where "sim_G = 1000"
definition sim_esc :: real where "sim_esc = 6000 * 6000"

text \<open>
  A parameter name, split at \<open>_\<close>: \<open>mass_n\<close>, or \<open>pos_axis_n\<close> and \<open>vel_axis_n\<close>, with
  \<open>n\<close> the number \<open>parseInt\<close> reads (bodies are counted from 1).
\<close>

datatype axis = X | Y | Z
datatype field = Pos | Vel
datatype param = MassParam nat | FieldParam field axis nat

definition bump :: "axis \<Rightarrow> real \<Rightarrow> Vector \<Rightarrow> Vector" where
  "bump ax val v =
     (case ax of
        X \<Rightarrow> Vector (vx v + val) (vy v) (vz v)
      | Y \<Rightarrow> Vector (vx v) (vy v + val) (vz v)
      | Z \<Rightarrow> Vector (vx v) (vy v) (vz v + val))"

definition applyParam ::
  "'a body_scheme list \<Rightarrow> param \<Rightarrow> real \<Rightarrow> fault + 'a body_scheme list" where
  "applyParam bodies type val =
     (case type of
        MassParam n \<Rightarrow>
          (if n = 0 then Inl TypeError
           else bindF (element bodies (n - 1))
                  (\<lambda>b. Inr (bodies[n - 1 := b\<lparr>mass := mass b + val\<rparr>])))
      | FieldParam f ax n \<Rightarrow>
          (if n = 0 then Inl TypeError
           else bindF (element bodies (n - 1))
                  (\<lambda>b. Inr (bodies[n - 1 :=
                          (case f of
                             Pos \<Rightarrow> b\<lparr>pos := bump ax val (pos b)\<rparr>
                           | Vel \<Rightarrow> b\<lparr>vel := bump ax val (vel b)\<rparr>)]))))"

text \<open>
  The body of the loop over \<open>b\<close>: the pull of body \<open>b\<close> on body \<open>a\<close>, added to
  \<open>(ax, ay, az)\<close>.  It divides by \<open>d2\<close> and by \<open>d\<close>.  The numbers are exact reals here;
  the same loop over doubles, with their overflow, is \<open>attract_d\<close> below.
\<close>

definition attract ::
  "'a body_scheme list \<Rightarrow> nat \<Rightarrow> nat \<Rightarrow> real \<times> real \<times> real \<Rightarrow> fault + real \<times> real \<times> real" where
  "attract bodies a b acc =
     (case acc of (ax, ay, az) \<Rightarrow>
        if a = b then Inr (ax, ay, az)
        else
          bindF (element bodies b) (\<lambda>bb.
          bindF (element bodies a) (\<lambda>ba.
            let dx = vx (pos bb) - vx (pos ba);
                dy = vy (pos bb) - vy (pos ba);
                dz = vz (pos bb) - vz (pos ba);
                d2 = dx * dx + dy * dy + dz * dz + 25;
                d = sqrt d2
            in
              bindF (finite_or (jsdiv (sim_G * mass bb) d2)) (\<lambda>f.
              bindF (finite_or (jsdiv dx d)) (\<lambda>ux.
              bindF (finite_or (jsdiv dy d)) (\<lambda>uy.
              bindF (finite_or (jsdiv dz d)) (\<lambda>uz.
                Inr (ax + f * ux, ay + f * uy, az + f * uz))))))))"

text \<open>The body of the first loop over \<open>a\<close>: the velocity of body \<open>a\<close> is updated in place.\<close>

definition kick :: "nat \<Rightarrow> 'a body_scheme list \<Rightarrow> fault + 'a body_scheme list" where
  "kick a bodies =
     bindF (forEachF [0..<3] (attract bodies a) (0, 0, 0)) (\<lambda>(ax, ay, az).
     bindF (element bodies a) (\<lambda>ba.
       Inr (bodies[a := ba\<lparr>vel := Vector (vx (vel ba) + ax * sim_dt)
                                          (vy (vel ba) + ay * sim_dt)
                                          (vz (vel ba) + az * sim_dt)\<rparr>])))"

text \<open>The body of the second loop over \<open>a\<close>: the position is updated, \<open>maxD2\<close> follows.\<close>

definition drift ::
  "nat \<Rightarrow> 'a body_scheme list \<times> real \<Rightarrow> fault + 'a body_scheme list \<times> real" where
  "drift a st =
     (case st of (bodies, maxD2) \<Rightarrow>
        bindF (element bodies a) (\<lambda>ba.
          let p = Vector (vx (pos ba) + vx (vel ba) * sim_dt)
                         (vy (pos ba) + vy (vel ba) * sim_dt)
                         (vz (pos ba) + vz (vel ba) * sim_dt)
          in Inr (bodies[a := ba\<lparr>pos := p\<rparr>],
                  max maxD2 ((vx p) ^ 2 + (vy p) ^ 2 + (vz p) ^ 2))))"

text \<open>One pass of the loop over \<open>i\<close>, up to the test of \<open>maxD2\<close>.\<close>

definition sweepStep :: "'a body_scheme list \<Rightarrow> fault + 'a body_scheme list \<times> real" where
  "sweepStep bodies =
     bindF (forEachF [0..<3] kick bodies) (\<lambda>bodies1. forEachF [0..<3] drift (bodies1, 0))"

function sweep :: "nat \<Rightarrow> 'a body_scheme list \<Rightarrow> fault + real" where
  "sweep i bodies =
     (if i < sim_steps
      then (case sweepStep bodies of
              Inl e \<Rightarrow> Inl e
            | Inr (bodies', maxD2) \<Rightarrow>
                if maxD2 > sim_esc then Inr (real i / real sim_steps)
                else sweep (i + 1) bodies')
      else Inr 1.0)"
  by pat_completeness auto
termination
  by (relation "measure (\<lambda>(i, bodies). sim_steps - i)") auto

record HeatmapExplorer =
  centerX :: real
  centerY :: real
  zoom :: real
  xAxis :: param
  yAxis :: param
  baseConfig :: "config list"

definition simStability :: "HeatmapExplorer \<Rightarrow> nat \<Rightarrow> nat \<Rightarrow> fault + real" where
  "simStability ex gridX gridY =
     bindF (finite_or (jsdiv baseRange (zoom ex))) (\<lambda>range.
       let valX = centerX ex + ((real gridX / res) - 0.5) * 2 * range;
           valY = centerY ex + ((real gridY / res) - 0.5) * 2 * range
       in
         bindF (applyParam (baseConfig ex) (xAxis ex) valX) (\<lambda>bodies1.
         bindF (applyParam bodies1 (yAxis ex) valY) (\<lambda>bodies2.
           sweep 0 bodies2)))"

subsection \<open>Auxiliary notions for the statements about the explorer\<close>

text \<open>
  \<open>pull bodies a b\<close>: the three numbers that the loop over \<open>b\<close> adds to \<open>(ax, ay, az)\<close>
  for a body \<open>b\<close> other than \<open>a\<close>, with the divisions carried out.
\<close>

definition pull :: "'a body_scheme list \<Rightarrow> nat \<Rightarrow> nat \<Rightarrow> real \<times> real \<times> real" where
  "pull bodies a b =
     (let dx = vx (pos (bodies ! b)) - vx (pos (bodies ! a));
          dy = vy (pos (bodies ! b)) - vy (pos (bodies ! a));
          dz = vz (pos (bodies ! b)) - vz (pos (bodies ! a));
          d2 = dx * dx + dy * dy + dz * dz + 25;
          d = sqrt d2;
          f = (sim_G * mass (bodies ! b)) / d2
      in (f * (dx / d), f * (dy / d), f * (dz / d)))"

text \<open>
  \<open>kicked bodies a\<close>: the velocity of body \<open>a\<close> plus \<open>dt\<close> times the sum of the pulls of
  the other two bodies, taken in the order of the loop.  \<open>moved bodies a\<close>: the position
  of body \<open>a\<close> plus \<open>dt\<close> times that velocity.
\<close>

definition kicked :: "'a body_scheme list \<Rightarrow> nat \<Rightarrow> Vector" where
  "kicked bodies a =
     Vector (vx (vel (bodies ! a))
               + (\<Sum>b\<leftarrow>filter (\<lambda>b. b \<noteq> a) [0..<3]. fst (pull bodies a b)) * sim_dt)
            (vy (vel (bodies ! a))
               + (\<Sum>b\<leftarrow>filter (\<lambda>b. b \<noteq> a) [0..<3]. fst (snd (pull bodies a b))) * sim_dt)
            (vz (vel (bodies ! a))
               + (\<Sum>b\<leftarrow>filter (\<lambda>b. b \<noteq> a) [0..<3]. snd (snd (pull bodies a b))) * sim_dt)"

definition moved :: "'a body_scheme list \<Rightarrow> nat \<Rightarrow> Vector" where
  "moved bodies a =
     Vector (vx (pos (bodies ! a)) + vx (kicked bodies a) * sim_dt)
            (vy (pos (bodies ! a)) + vy (kicked bodies a) * sim_dt)
            (vz (pos (bodies ! a)) + vz (kicked bodies a) * sim_dt)"

text \<open>\<open>pass bodies\<close>: the bodies after one pass of the loop over \<open>i\<close>.\<close>

definition pass :: "'a body_scheme list \<Rightarrow> 'a body_scheme list" where
  "pass bodies = (case sweepStep bodies of Inr (bodies', maxD2) \<Rightarrow> bodies' | Inl e \<Rightarrow> bodies)"

text \<open>
  \<open>escaped bodies\<close>: one of the three bodies is beyond the escape radius, that is, its
  squared distance from the origin exceeds \<open>esc\<close>.
\<close>

definition escaped :: "'a body_scheme list \<Rightarrow> bool" where
  "escaped bodies \<longleftrightarrow>
     (\<exists>a < 3. (vx (pos (bodies ! a)))\<^sup>2 + (vy (pos (bodies ! a)))\<^sup>2 + (vz (pos (bodies ! a)))\<^sup>2
               > sim_esc)"

section \<open>The inner loop of the sweep in double precision\<close>

text \<open>
  The definitions above compute with exact reals, where the only non-finite result is a
  division by zero.  A JS number is an IEEE 754 double: its arithmetic rounds, overflows to
  an infinity, and propagates infinities and \<open>NaN\<close>.  This section models that
  arithmetic and, with it, the loop over \<open>b\<close> of \<open>simStability\<close>.

  A double is a finite value, the negative zero, an infinity, or \<open>NaN\<close>; \<open>Fin 0\<close> is the
  positive zero.
\<close>

datatype double = Fin real | NegZero | PInf | NInf | NaN

text \<open>The sign bit, the value of a finite double, and the zero and infinity of a given sign.\<close>

definition negative :: "double \<Rightarrow> bool" where
  "negative v = (case v of Fin r \<Rightarrow> r < 0 | NegZero \<Rightarrow> True | PInf \<Rightarrow> False | NInf \<Rightarrow> True
                 | NaN \<Rightarrow> False)"

definition valueOf :: "double \<Rightarrow> real" where
  "valueOf v = (case v of Fin r \<Rightarrow> r | _ \<Rightarrow> 0)"

definition zero :: "bool \<Rightarrow> double" where
  "zero s = (if s then NegZero else Fin 0)"

definition infinity :: "bool \<Rightarrow> double" where
  "infinity s = (if s then NInf else PInf)"

definition isZero :: "double \<Rightarrow> bool" where
  "isZero v = (v = Fin 0 \<or> v = NegZero)"

definition isInfinite :: "double \<Rightarrow> bool" where
  "isInfinite v = (v = PInf \<or> v = NInf)"

definition isFinite :: "double \<Rightarrow> bool" where
  "isFinite v = (case v of Fin r \<Rightarrow> True | NegZero \<Rightarrow> True | _ \<Rightarrow> False)"

text \<open>
  Rounding to nearest, ties to even.  A double has 53 significant bits and an exponent
  from \<open>-1022\<close> to \<open>1023\<close>, so the doubles around \<open>r\<close> are the multiples of
  \<open>ulp r = 2 ^ (e - 52)\<close>, where \<open>e\<close> is the binary exponent of \<open>r\<close>, or \<open>-1022\<close> in the
  subnormal range.  A result of magnitude \<open>2 ^ 1024 - 2 ^ 970\<close> or more, half-way between the
  largest double and \<open>2 ^ 1024\<close>, becomes an infinity.  \<open>round64 s r\<close> is the double for the
  exact result \<open>r\<close>; \<open>s\<close> is the sign of the zero when \<open>r\<close> is exactly zero.
\<close>

definition expo :: "real \<Rightarrow> int" where
  "expo r = max \<lfloor>log 2 \<bar>r\<bar>\<rfloor> (- 1022)"

definition ulp :: "real \<Rightarrow> real" where
  "ulp r = 2 powi (expo r - 52)"

definition ties_even :: "real \<Rightarrow> int" where
  "ties_even q =
     (let f = \<lfloor>q\<rfloor> in
        if q - of_int f < 1 / 2 then f
        else if 1 / 2 < q - of_int f then f + 1
        else if even f then f else f + 1)"

definition nearest :: "real \<Rightarrow> real" where
  "nearest r = (if r = 0 then 0 else of_int (ties_even (r / ulp r)) * ulp r)"

definition round64 :: "bool \<Rightarrow> real \<Rightarrow> double" where
  "round64 s r =
     (if r = 0 then zero s
      else if 2 ^ 1024 - 2 ^ 970 \<le> \<bar>r\<bar> then infinity (r < 0)
      else if nearest r = 0 then zero (r < 0)
      else Fin (nearest r))"

text \<open>The operators \<open>-x\<close>, \<open>+\<close>, \<open>-\<close>, \<open>*\<close>, \<open>/\<close> and \<open>Math.sqrt\<close>.\<close>

definition d_neg :: "double \<Rightarrow> double" where
  "d_neg a = (case a of Fin r \<Rightarrow> if r = 0 then NegZero else Fin (- r) | NegZero \<Rightarrow> Fin 0
              | PInf \<Rightarrow> NInf | NInf \<Rightarrow> PInf | NaN \<Rightarrow> NaN)"

definition d_add :: "double \<Rightarrow> double \<Rightarrow> double" where
  "d_add a b =
     (if a = NaN \<or> b = NaN then NaN
      else if isInfinite a then (if isInfinite b \<and> b \<noteq> a then NaN else a)
      else if isInfinite b then b
      else round64 (negative a \<and> negative b) (valueOf a + valueOf b))"

definition d_sub :: "double \<Rightarrow> double \<Rightarrow> double" where
  "d_sub a b = d_add a (d_neg b)"

definition d_mul :: "double \<Rightarrow> double \<Rightarrow> double" where
  "d_mul a b =
     (if a = NaN \<or> b = NaN then NaN
      else if (isInfinite a \<and> isZero b) \<or> (isZero a \<and> isInfinite b) then NaN
      else if isInfinite a \<or> isInfinite b then infinity (negative a \<noteq> negative b)
      else round64 (negative a \<noteq> negative b) (valueOf a * valueOf b))"

definition d_div :: "double \<Rightarrow> double \<Rightarrow> double" where
  "d_div a b =
     (if a = NaN \<or> b = NaN then NaN
      else if (isInfinite a \<and> isInfinite b) \<or> (isZero a \<and> isZero b) then NaN
      else if isInfinite a \<or> isZero b then infinity (negative a \<noteq> negative b)
      else if isInfinite b then zero (negative a \<noteq> negative b)
      else round64 (negative a \<noteq> negative b) (valueOf a / valueOf b))"

definition d_sqrt :: "double \<Rightarrow> double" where
  "d_sqrt a = (case a of Fin r \<Rightarrow> if r < 0 then NaN else round64 False (sqrt r)
               | NegZero \<Rightarrow> NegZero | PInf \<Rightarrow> PInf | NInf \<Rightarrow> NaN | NaN \<Rightarrow> NaN)"

text \<open>\<open>isDouble\<close>: a finite value is one of the doubles.\<close>

definition isDouble :: "double \<Rightarrow> bool" where
  "isDouble v = (case v of Fin r \<Rightarrow> nearest r = r \<and> \<bar>r\<bar> < 2 ^ 1024 | _ \<Rightarrow> True)"

text \<open>A \<open>Vector\<close> and a body whose fields are doubles.\<close>

datatype Vector_d = Vector_d (vx_d: double) (vy_d: double) (vz_d: double)

record body_d =
  pos_d :: Vector_d
  vel_d :: Vector_d
  mass_d :: double

text \<open>
  The body of the loop over \<open>b\<close>, as \<open>attract\<close> above, with the operators of doubles.
  The arithmetic never throws, and nothing tests the separation.
\<close>

definition attract_d ::
  "body_d list \<Rightarrow> nat \<Rightarrow> nat \<Rightarrow> double \<times> double \<times> double
     \<Rightarrow> fault + double \<times> double \<times> double" where
  "attract_d bodies a b acc =
     (case acc of (ax, ay, az) \<Rightarrow>
        if a = b then Inr (ax, ay, az)
        else
          bindF (element bodies b) (\<lambda>bb.
          bindF (element bodies a) (\<lambda>ba.
            let dx = d_sub (vx_d (pos_d bb)) (vx_d (pos_d ba));
                dy = d_sub (vy_d (pos_d bb)) (vy_d (pos_d ba));
                dz = d_sub (vz_d (pos_d bb)) (vz_d (pos_d ba));
                d2 = d_add (d_add (d_add (d_mul dx dx) (d_mul dy dy)) (d_mul dz dz)) (Fin 25);
                d = d_sqrt d2;
                f = d_div (d_mul (Fin sim_G) (mass_d bb)) d2
            in Inr (d_add ax (d_mul f (d_div dx d)),
                    d_add ay (d_mul f (d_div dy d)),
                    d_add az (d_mul f (d_div dz d))))))"

text \<open>
  A body as the sweep receives it: every field a finite double, the mass positive.
\<close>

definition finiteVector :: "Vector_d \<Rightarrow> bool" where
  "finiteVector v \<longleftrightarrow>
     isDouble (vx_d v) \<and> isFinite (vx_d v) \<and> isDouble (vy_d v) \<and> isFinite (vy_d v)
     \<and> isDouble (vz_d v) \<and> isFinite (vz_d v)"

definition finiteBody :: "body_d \<Rightarrow> bool" where
  "finiteBody b \<longleftrightarrow>
     finiteVector (pos_d b) \<and> finiteVector (vel_d b)
     \<and> isDouble (mass_d b) \<and> isFinite (mass_d b) \<and> 0 < valueOf (mass_d b)"

text \<open>
  Bodies 0 and 1 at the same place \<open>(1, 2, 3)\<close>; the mass of body 1 is \<open>2 ^ 1020\<close>, a double.
\<close>

definition heavy_pair :: "body_d list" where
  "heavy_pair =
     [\<lparr>pos_d = Vector_d (Fin 1) (Fin 2) (Fin 3), vel_d = Vector_d (Fin 0) (Fin 0) (Fin 0),
       mass_d = Fin 20\<rparr>,
      \<lparr>pos_d = Vector_d (Fin 1) (Fin 2) (Fin 3), vel_d = Vector_d (Fin 0) (Fin 5) (Fin 0),
       mass_d = Fin (2 ^ 1020)\<rparr>,
      \<lparr>pos_d = Vector_d (Fin 0) (Fin (- 150)) (Fin 50), vel_d = Vector_d (Fin 4) (Fin 0) (Fin 0),
       mass_d = Fin 15\<rparr>]"

section \<open>The fixed-step accumulators\<close>

subsection \<open>The application's engine (floating accumulator)\<close>

text \<open>
  \<^verbatim>\<open>class PhysicsEngine\<close> of the application and of verify\_consistency.js.  The
  constructor sets \<open>G = 1000\<close>, \<open>softening = 5\<close> and \<open>fixedDt = 0.01\<close>, which are never
  assigned again; \<open>bodies\<close>, \<open>dt\<close> and \<open>accumulator\<close> change.  \<open>bodies = None\<close>: a
  non-finite number has entered the bodies.
\<close>

definition app_G :: real where "app_G = 1000"
definition app_softening :: real where "app_softening = 5"
definition fixedDt :: real where "fixedDt = 0.01"

record PhysicsEngine =
  bodies :: "live_body list option"
  dt :: real
  accumulator :: real

definition newPhysicsEngine :: PhysicsEngine where
  "newPhysicsEngine = \<lparr>bodies = Some [], dt = 0.15, accumulator = 0\<rparr>"

text \<open>\<open>c.radius || 5\<close>: a missing or zero radius becomes 5; likewise the colour.\<close>

definition loadConfig :: "config list \<Rightarrow> PhysicsEngine \<Rightarrow> PhysicsEngine" where
  "loadConfig cfg e =
     e\<lparr>bodies := Some (map (\<lambda>c.
          \<lparr>pos = Vector (vx (pos c)) (vy (pos c)) (vz (pos c)),
           vel = Vector (vx (vel c)) (vy (vel c)) (vz (vel c)),
           mass = mass c,
           radius = (case cfg_radius c of None \<Rightarrow> 5 | Some r \<Rightarrow> if r = 0 then 5 else r),
           color = (case cfg_color c of None \<Rightarrow> 0xffffff | Some k \<Rightarrow> if k = 0 then 0xffffff else k)\<rparr>)
          cfg)\<rparr>"

text \<open>\<open>integrate(dt)\<close> as a method: it works on \<open>this.bodies\<close>, with the engine's constants.\<close>

definition integrateB :: "real \<Rightarrow> live_body list option \<Rightarrow> live_body list option" where
  "integrateB h b = (case b of None \<Rightarrow> None | Some bs \<Rightarrow> integrate app_G app_softening h bs)"

definition integrateE :: "real \<Rightarrow> PhysicsEngine \<Rightarrow> PhysicsEngine" where
  "integrateE h e = e\<lparr>bodies := integrateB h (bodies e)\<rparr>"

function drain :: "PhysicsEngine \<Rightarrow> PhysicsEngine" where
  "drain e =
     (if accumulator e \<ge> fixedDt
      then drain ((integrateE fixedDt e)\<lparr>accumulator := accumulator e - fixedDt\<rparr>)
      else e)"
  by pat_completeness auto
termination
proof (relation "measure (\<lambda>e. nat \<lfloor>accumulator e * 100\<rfloor>)")
  show "wf (measure (\<lambda>e. nat \<lfloor>accumulator e * 100\<rfloor>))" by simp
next
  fix e :: PhysicsEngine
  assume a: "fixedDt \<le> accumulator e"
  have "\<lfloor>(accumulator e - fixedDt) * 100\<rfloor> = \<lfloor>accumulator e * 100\<rfloor> - 1"
    by (simp add: fixedDt_def algebra_simps)
  moreover have "1 \<le> \<lfloor>accumulator e * 100\<rfloor>"
    using a by (simp add: fixedDt_def le_floor_iff)
  ultimately show "((integrateE fixedDt e)\<lparr>accumulator := accumulator e - fixedDt\<rparr>, e)
        \<in> measure (\<lambda>e. nat \<lfloor>accumulator e * 100\<rfloor>)"
    by simp
qed

definition step :: "PhysicsEngine \<Rightarrow> PhysicsEngine" where
  "step e = drain (e\<lparr>accumulator := accumulator e + dt e\<rparr>)"

text \<open>
  The caller: the speed slider assigns \<open>physics.dt\<close>, the animation loop calls
  \<open>physics.step()\<close>.  One frame per element of the list.
\<close>

definition frames :: "real list \<Rightarrow> PhysicsEngine \<Rightarrow> PhysicsEngine" where
  "frames ds e = fold (\<lambda>d e. step (e\<lparr>dt := d\<rparr>)) ds e"

subsection \<open>The integer accumulator (debug\_verify.js)\<close>

text \<open>
  \<^verbatim>\<open>class IntegerAccumulatorTest\<close>: the constructor sets \<open>fixedStepUs = 10000\<close>,
  \<open>accumulatorUs = 0\<close>, \<open>stepsTaken = 0\<close>.  \<open>fixedStepUs\<close> is never assigned again.
\<close>

definition fixedStepUs :: int where
  "fixedStepUs = 10000"

record IntegerAccumulatorTest =
  accumulatorUs :: int
  stepsTaken :: nat

definition newIntegerAccumulatorTest :: IntegerAccumulatorTest where
  "newIntegerAccumulatorTest = \<lparr>accumulatorUs = 0, stepsTaken = 0\<rparr>"

text \<open>The \<open>while (this.accumulatorUs >= this.fixedStepUs)\<close> loop of \<open>step\<close>.\<close>

function drainUs :: "IntegerAccumulatorTest \<Rightarrow> IntegerAccumulatorTest" where
  "drainUs s =
     (if accumulatorUs s \<ge> fixedStepUs
      then drainUs (s\<lparr>stepsTaken := stepsTaken s + 1,
                      accumulatorUs := accumulatorUs s - fixedStepUs\<rparr>)
      else s)"
  by pat_completeness auto
termination
  by (relation "measure (\<lambda>s. nat (accumulatorUs s))") (auto simp: fixedStepUs_def)

definition stepUs :: "real \<Rightarrow> IntegerAccumulatorTest \<Rightarrow> IntegerAccumulatorTest" where
  "stepUs d s =
     (let dtUs = Math_round (d * 1000000)
      in drainUs (s\<lparr>accumulatorUs := accumulatorUs s + dtUs\<rparr>))"

text \<open>A driver calling \<open>step\<close> once per increment, as the loops of the test file do.\<close>

definition runUs :: "real list \<Rightarrow> IntegerAccumulatorTest \<Rightarrow> IntegerAccumulatorTest" where
  "runUs ds s = fold stepUs ds s"

subsection \<open>The engine with the integer accumulator\<close>

text \<open>
  The second \<^verbatim>\<open>class PhysicsEngine\<close> (the energy check) keeps the residual in whole
  microseconds: its constructor sets \<open>dt = 0.45\<close>, \<open>fixedDt = 0.01\<close>,
  \<open>fixedStepUs = 10000\<close>, \<open>accumulatorUs = 0\<close>; \<open>getAccelerations\<close> and \<open>integrate\<close> are
  those of the first engine.  Its fields carry the prefix \<open>us_\<close> here.
\<close>

record PhysicsEngineUs =
  us_bodies :: "live_body list option"
  us_dt :: real
  us_accumulatorUs :: int

definition newPhysicsEngineUs :: PhysicsEngineUs where
  "newPhysicsEngineUs = \<lparr>us_bodies = Some [], us_dt = 0.45, us_accumulatorUs = 0\<rparr>"

function us_drain :: "PhysicsEngineUs \<Rightarrow> PhysicsEngineUs" where
  "us_drain e =
     (if us_accumulatorUs e \<ge> fixedStepUs
      then us_drain (e\<lparr>us_bodies := integrateB fixedDt (us_bodies e),
                       us_accumulatorUs := us_accumulatorUs e - fixedStepUs\<rparr>)
      else e)"
  by pat_completeness auto
termination
  by (relation "measure (\<lambda>e. nat (us_accumulatorUs e))") (auto simp: fixedStepUs_def)

definition us_step :: "PhysicsEngineUs \<Rightarrow> PhysicsEngineUs" where
  "us_step e =
     (let dtUs = Math_round (us_dt e * 1000000)
      in us_drain (e\<lparr>us_accumulatorUs := us_accumulatorUs e + dtUs\<rparr>))"

text \<open>The caller: \<open>dt\<close> is assigned, then \<open>step()\<close> is called; one frame per element.\<close>

definition us_frames :: "real list \<Rightarrow> PhysicsEngineUs \<Rightarrow> PhysicsEngineUs" where
  "us_frames ds e = fold (\<lambda>d e. us_step (e\<lparr>us_dt := d\<rparr>)) ds e"

section \<open>Properties of the integer accumulator\<close>

declare drainUs.simps [simp del]
declare drain.simps [simp del]
declare us_drain.simps [simp del]
declare sweep.simps [simp del]

lemma drainUs_below: "accumulatorUs s < fixedStepUs \<Longrightarrow> drainUs s = s"
  by (subst drainUs.simps) simp

lemma drainUs_closed:
  "0 \<le> accumulatorUs s \<Longrightarrow>
   drainUs s = \<lparr>accumulatorUs = accumulatorUs s mod fixedStepUs,
               stepsTaken = stepsTaken s + nat (accumulatorUs s div fixedStepUs)\<rparr>"
proof (induction s rule: drainUs.induct)
  case (1 s)
  show ?case
  proof (cases "accumulatorUs s \<ge> fixedStepUs")
    case True
    let ?s' = "s\<lparr>stepsTaken := stepsTaken s + 1,
                  accumulatorUs := accumulatorUs s - fixedStepUs\<rparr>"
    have pos: "0 \<le> accumulatorUs ?s'" using True by simp
    have m: "(accumulatorUs s - fixedStepUs) mod fixedStepUs = accumulatorUs s mod fixedStepUs"
      by (simp add: fixedStepUs_def)
    have d: "nat ((accumulatorUs s - fixedStepUs) div fixedStepUs) + 1
             = nat (accumulatorUs s div fixedStepUs)"
      using True by (simp add: fixedStepUs_def)
    have "drainUs s = drainUs ?s'"
      using True by (subst drainUs.simps) simp
    also have "\<dots> = \<lparr>accumulatorUs = accumulatorUs ?s' mod fixedStepUs,
                      stepsTaken = stepsTaken ?s' + nat (accumulatorUs ?s' div fixedStepUs)\<rparr>"
      using "1.IH"[OF True pos] .
    finally show ?thesis using m d by simp
  next
    case False
    then have small: "accumulatorUs s < fixedStepUs" by simp
    with 1(2) have "accumulatorUs s mod fixedStepUs = accumulatorUs s"
      and "accumulatorUs s div fixedStepUs = 0"
      by (simp_all add: fixedStepUs_def)
    then show ?thesis using drainUs_below[OF small] by simp
  qed
qed

lemma stepUs_closed:
  assumes "0 \<le> accumulatorUs s" "0 \<le> d"
  shows "stepUs d s =
         \<lparr>accumulatorUs = (accumulatorUs s + Math_round (d * 1000000)) mod fixedStepUs,
          stepsTaken = stepsTaken s
            + nat ((accumulatorUs s + Math_round (d * 1000000)) div fixedStepUs)\<rparr>"
proof -
  have "0 \<le> Math_round (d * 1000000)"
    using assms(2) by (simp add: Math_round_def)
  with assms(1) show ?thesis
    by (simp add: stepUs_def drainUs_closed)
qed

lemma stepUs_residual:
  assumes "0 \<le> accumulatorUs s" "accumulatorUs s < fixedStepUs" "0 \<le> d"
  shows "0 \<le> accumulatorUs (stepUs d s) \<and> accumulatorUs (stepUs d s) < fixedStepUs"
  using assms by (simp add: stepUs_closed fixedStepUs_def)

text \<open>
  The loop invariant of a driver: the microseconds fed in so far are the steps taken
  times the step size plus the residual, and the residual is below one step.
\<close>

lemma runUs_invariant:
  assumes "\<forall>d \<in> set ds. 0 \<le> d"
    and "0 \<le> accumulatorUs s" "accumulatorUs s < fixedStepUs"
  shows "0 \<le> accumulatorUs (runUs ds s)
       \<and> accumulatorUs (runUs ds s) < fixedStepUs
       \<and> int (stepsTaken (runUs ds s)) * fixedStepUs + accumulatorUs (runUs ds s)
           = int (stepsTaken s) * fixedStepUs + accumulatorUs s
             + (\<Sum>d\<leftarrow>ds. Math_round (d * 1000000))"
  using assms
proof (induction ds arbitrary: s)
  case Nil
  then show ?case by (simp add: runUs_def)
next
  case (Cons d ds)
  let ?t = "stepUs d s"
  let ?a = "accumulatorUs s + Math_round (d * 1000000)"
  have d0: "0 \<le> d" and rest: "\<forall>d \<in> set ds. 0 \<le> d"
    using Cons.prems(1) by simp_all
  have r0: "0 \<le> Math_round (d * 1000000)"
    using d0 by (simp add: Math_round_def)
  have t: "?t = \<lparr>accumulatorUs = ?a mod fixedStepUs,
                 stepsTaken = stepsTaken s + nat (?a div fixedStepUs)\<rparr>"
    using stepUs_closed[OF Cons.prems(2) d0] .
  have a0: "0 \<le> ?a" using r0 Cons.prems(2) by simp
  then have q0: "0 \<le> ?a div fixedStepUs"
    by (simp add: fixedStepUs_def pos_imp_zdiv_nonneg_iff)
  have res: "0 \<le> accumulatorUs ?t" "accumulatorUs ?t < fixedStepUs"
    using stepUs_residual[OF Cons.prems(2,3) d0] by simp_all
  have bal: "int (stepsTaken ?t) * fixedStepUs + accumulatorUs ?t
             = int (stepsTaken s) * fixedStepUs + ?a"
  proof -
    have "int (stepsTaken ?t) * fixedStepUs + accumulatorUs ?t
          = (int (stepsTaken s) + ?a div fixedStepUs) * fixedStepUs + ?a mod fixedStepUs"
      using q0 by (simp add: t)
    also have "\<dots> = int (stepsTaken s) * fixedStepUs
                     + (?a div fixedStepUs * fixedStepUs + ?a mod fixedStepUs)"
      by (simp add: algebra_simps)
    finally show ?thesis by simp
  qed
  have run: "runUs (d # ds) s = runUs ds ?t"
    by (simp add: runUs_def)
  show ?case
    using Cons.IH[OF rest res] bal by (simp add: run)
qed

lemma runUs_steps:
  assumes "\<forall>d \<in> set ds. 0 \<le> d"
  shows "stepsTaken (runUs ds newIntegerAccumulatorTest)
         = nat ((\<Sum>d\<leftarrow>ds. Math_round (d * 1000000)) div fixedStepUs)"
proof -
  let ?r = "runUs ds newIntegerAccumulatorTest"
  let ?T = "\<Sum>d\<leftarrow>ds. Math_round (d * 1000000)"
  have inv: "0 \<le> accumulatorUs ?r" "accumulatorUs ?r < fixedStepUs"
    "int (stepsTaken ?r) * fixedStepUs + accumulatorUs ?r = ?T"
    using runUs_invariant[OF assms, of newIntegerAccumulatorTest]
    by (simp_all add: newIntegerAccumulatorTest_def fixedStepUs_def)
  have "?T div fixedStepUs = int (stepsTaken ?r)"
    using inv by (simp add: fixedStepUs_def flip: inv(3))
  then show ?thesis by simp
qed

lemma Math_round_whole: "Math_round (of_int k) = k"
  by (simp add: Math_round_def)

lemma Math_round_numeral: "Math_round (numeral k) = numeral k"
  using Math_round_whole[of "numeral k"] by simp

subsection \<open>Properties of the engine with the integer accumulator\<close>


lemma us_drain_closed:
  "0 \<le> us_accumulatorUs e \<Longrightarrow>
   us_drain e =
     e\<lparr>us_bodies := (integrateB fixedDt ^^ nat (us_accumulatorUs e div fixedStepUs)) (us_bodies e),
       us_accumulatorUs := us_accumulatorUs e mod fixedStepUs\<rparr>"
proof (induction e rule: us_drain.induct)
  case (1 e)
  show ?case
  proof (cases "us_accumulatorUs e \<ge> fixedStepUs")
    case True
    let ?e' = "e\<lparr>us_bodies := integrateB fixedDt (us_bodies e),
                  us_accumulatorUs := us_accumulatorUs e - fixedStepUs\<rparr>"
    have pos: "0 \<le> us_accumulatorUs ?e'" using True by simp
    have m: "(us_accumulatorUs e - fixedStepUs) mod fixedStepUs = us_accumulatorUs e mod fixedStepUs"
      by (simp add: fixedStepUs_def)
    have d: "nat (us_accumulatorUs e div fixedStepUs)
             = Suc (nat ((us_accumulatorUs e - fixedStepUs) div fixedStepUs))"
      using True by (simp add: fixedStepUs_def)
    have "us_drain e = us_drain ?e'"
      using True by (subst us_drain.simps) simp
    also have "\<dots> = ?e'\<lparr>us_bodies := (integrateB fixedDt ^^ nat (us_accumulatorUs ?e' div fixedStepUs))
                                       (us_bodies ?e'),
                       us_accumulatorUs := us_accumulatorUs ?e' mod fixedStepUs\<rparr>"
      using "1.IH"[OF True pos] .
    finally show ?thesis
      by (simp add: m d funpow_swap1)
  next
    case False
    then have "us_drain e = e" by (subst us_drain.simps) simp
    moreover have "us_accumulatorUs e mod fixedStepUs = us_accumulatorUs e"
      and "us_accumulatorUs e div fixedStepUs = 0"
      using False 1(2) by (simp_all add: fixedStepUs_def)
    ultimately show ?thesis by simp
  qed
qed

lemma split_quotient:
  fixes a r :: int
  assumes "0 \<le> a" "0 \<le> r"
  shows "nat ((a + r) div fixedStepUs) = nat (a div fixedStepUs) + nat ((a mod fixedStepUs + r) div fixedStepUs)"
proof -
  have "a + r = fixedStepUs * (a div fixedStepUs) + (a mod fixedStepUs + r)" by simp
  then have "(a + r) div fixedStepUs = a div fixedStepUs + (a mod fixedStepUs + r) div fixedStepUs"
    by (metis add.commute div_mult_self2 fixedStepUs_def zero_neq_numeral)
  moreover have "0 \<le> a div fixedStepUs" "0 \<le> (a mod fixedStepUs + r) div fixedStepUs"
    using assms by (simp_all add: fixedStepUs_def pos_imp_zdiv_nonneg_iff)
  ultimately show ?thesis by (simp add: nat_add_distrib)
qed

lemma us_step_closed:
  assumes "0 \<le> us_dt e" and "0 \<le> us_accumulatorUs e"
  shows "us_step e =
     e\<lparr>us_bodies := (integrateB fixedDt ^^
                        nat ((us_accumulatorUs e + Math_round (us_dt e * 1000000)) div fixedStepUs))
                       (us_bodies e),
       us_accumulatorUs := (us_accumulatorUs e + Math_round (us_dt e * 1000000)) mod fixedStepUs\<rparr>"
proof -
  have "0 \<le> Math_round (us_dt e * 1000000)"
    using assms(1) by (simp add: Math_round_def)
  with assms(2) show ?thesis
    by (simp add: us_step_def us_drain_closed)
qed

lemma us_frames_closed:
  assumes "\<forall>d \<in> set ds. 0 \<le> d"
    and "0 \<le> us_accumulatorUs e" "us_accumulatorUs e < fixedStepUs"
  shows "us_bodies (us_frames ds e)
           = (integrateB fixedDt ^^
                nat ((us_accumulatorUs e + (\<Sum>d\<leftarrow>ds. Math_round (d * 1000000))) div fixedStepUs))
               (us_bodies e)
       \<and> us_accumulatorUs (us_frames ds e)
           = (us_accumulatorUs e + (\<Sum>d\<leftarrow>ds. Math_round (d * 1000000))) mod fixedStepUs"
  using assms
proof (induction ds arbitrary: e)
  case Nil
  then show ?case by (simp add: us_frames_def fixedStepUs_def)
next
  case (Cons d ds)
  let ?a = "us_accumulatorUs e"
  let ?r = "Math_round (d * 1000000)"
  let ?T = "\<Sum>d\<leftarrow>ds. Math_round (d * 1000000)"
  let ?e1 = "us_step (e\<lparr>us_dt := d\<rparr>)"
  have d0: "0 \<le> d" and rest: "\<forall>d \<in> set ds. 0 \<le> d"
    using Cons.prems(1) by simp_all
  have r0: "0 \<le> ?r" using d0 by (simp add: Math_round_def)
  have T0: "0 \<le> ?T"
    using rest by (intro sum_list_nonneg) (auto simp: Math_round_def)
  have e1: "?e1 = e\<lparr>us_dt := d,
                     us_bodies := (integrateB fixedDt ^^ nat ((?a + ?r) div fixedStepUs)) (us_bodies e),
                     us_accumulatorUs := (?a + ?r) mod fixedStepUs\<rparr>"
    using us_step_closed[of "e\<lparr>us_dt := d\<rparr>"] d0 Cons.prems(2) by simp
  have acc1: "0 \<le> us_accumulatorUs ?e1" "us_accumulatorUs ?e1 < fixedStepUs"
    unfolding e1 by (simp_all add: fixedStepUs_def)
  have run: "us_frames (d # ds) e = us_frames ds ?e1"
    by (simp add: us_frames_def)
  have q: "nat ((?a + ?r + ?T) div fixedStepUs)
           = nat ((?a + ?r) div fixedStepUs) + nat (((?a + ?r) mod fixedStepUs + ?T) div fixedStepUs)"
    using split_quotient[of "?a + ?r" ?T] Cons.prems(2) r0 T0 by simp
  have m: "(?a + ?r + ?T) mod fixedStepUs = ((?a + ?r) mod fixedStepUs + ?T) mod fixedStepUs"
    by (simp add: mod_add_left_eq)
  let ?k1 = "nat ((?a + ?r) div fixedStepUs)"
  let ?k2 = "nat (((?a + ?r) mod fixedStepUs + ?T) div fixedStepUs)"
  have b1: "us_bodies ?e1 = (integrateB fixedDt ^^ ?k1) (us_bodies e)"
    and a1: "us_accumulatorUs ?e1 = (?a + ?r) mod fixedStepUs"
    unfolding e1 by simp_all
  from Cons.IH[OF rest acc1]
  have ih: "us_bodies (us_frames ds ?e1)
           = (integrateB fixedDt ^^ nat ((us_accumulatorUs ?e1 + ?T) div fixedStepUs)) (us_bodies ?e1)"
    "us_accumulatorUs (us_frames ds ?e1) = (us_accumulatorUs ?e1 + ?T) mod fixedStepUs"
    by simp_all
  have s: "(\<Sum>d\<leftarrow>d # ds. Math_round (d * 1000000)) = ?r + ?T" by simp
  have "us_bodies (us_frames (d # ds) e) = (integrateB fixedDt ^^ ?k2) ((integrateB fixedDt ^^ ?k1) (us_bodies e))"
    unfolding run ih(1) a1 b1 ..
  also have "\<dots> = (integrateB fixedDt ^^ (?k2 + ?k1)) (us_bodies e)"
    by (simp add: funpow_add)
  also have "?k2 + ?k1 = nat ((?a + (?r + ?T)) div fixedStepUs)"
    using q by (simp add: add.assoc)
  finally have bodies: "us_bodies (us_frames (d # ds) e)
       = (integrateB fixedDt ^^ nat ((?a + (?r + ?T)) div fixedStepUs)) (us_bodies e)" .
  have "us_accumulatorUs (us_frames (d # ds) e) = ((?a + ?r) mod fixedStepUs + ?T) mod fixedStepUs"
    unfolding run ih(2) a1 ..
  also have "\<dots> = (?a + (?r + ?T)) mod fixedStepUs"
    using m by (simp add: add.assoc)
  finally have acc: "us_accumulatorUs (us_frames (d # ds) e) = (?a + (?r + ?T)) mod fixedStepUs" .
  show ?case
    unfolding s using bodies acc by blast
qed

text \<open>
  C1, as the code has it.  \<open>step\<close> rounds every increment to whole microseconds before
  it adds it, so the number of sub-steps is decided by the total of the rounded
  increments: for two sequences of non-negative increments whose rounded microsecond
  counts have the same total, the accumulator executes the same number of sub-steps,
  the total divided by 10000 and rounded down, and the engine with the integer
  accumulator, started with an empty residual, ends with the same bodies, namely
  \<open>integrate(fixedDt)\<close> applied that many times.  In particular 30 calls of 0.1 s and
  10 calls of 0.3 s execute 300 sub-steps each.
\<close>

theorem reslicing_determinism:
  assumes "\<forall>d \<in> set xs. 0 \<le> d" and "\<forall>d \<in> set ys. 0 \<le> d"
    and "(\<Sum>d\<leftarrow>xs. Math_round (d * 1000000)) = (\<Sum>d\<leftarrow>ys. Math_round (d * 1000000))"
    and "us_accumulatorUs e = 0"
  shows "stepsTaken (runUs xs newIntegerAccumulatorTest)
           = stepsTaken (runUs ys newIntegerAccumulatorTest)
       \<and> stepsTaken (runUs xs newIntegerAccumulatorTest)
           = nat ((\<Sum>d\<leftarrow>xs. Math_round (d * 1000000)) div fixedStepUs)
       \<and> us_bodies (us_frames xs e) = us_bodies (us_frames ys e)
       \<and> us_bodies (us_frames xs e)
           = (integrateB fixedDt ^^ nat ((\<Sum>d\<leftarrow>xs. Math_round (d * 1000000)) div fixedStepUs))
               (us_bodies e)
       \<and> stepsTaken (runUs (replicate 30 0.1) newIntegerAccumulatorTest) = 300
       \<and> stepsTaken (runUs (replicate 10 0.3) newIntegerAccumulatorTest) = 300"
proof -
  have "stepsTaken (runUs (replicate 30 0.1) newIntegerAccumulatorTest) = 300"
    by (subst runUs_steps) (simp_all add: sum_list_replicate Math_round_numeral fixedStepUs_def)
  moreover have "stepsTaken (runUs (replicate 10 0.3) newIntegerAccumulatorTest) = 300"
    by (subst runUs_steps) (simp_all add: sum_list_replicate Math_round_numeral fixedStepUs_def)
  moreover have "us_bodies (us_frames zs e)
           = (integrateB fixedDt ^^ nat ((\<Sum>d\<leftarrow>zs. Math_round (d * 1000000)) div fixedStepUs))
               (us_bodies e)" if "\<forall>d \<in> set zs. 0 \<le> d" for zs
    using us_frames_closed[OF that, of e] assms(4) by (simp add: fixedStepUs_def)
  ultimately show ?thesis
    using runUs_steps[OF assms(1)] runUs_steps[OF assms(2)] assms(1,2,3) by simp
qed

theorem reslicing_determinism_witness:
  "stepsTaken (runUs [0.1, 0.1, 0.1] newIntegerAccumulatorTest)
     = stepsTaken (runUs [0.3] newIntegerAccumulatorTest)
   \<and> stepsTaken (runUs [0.1, 0.1, 0.1] newIntegerAccumulatorTest) = 30
   \<and> us_bodies (us_frames [0.1, 0.1, 0.1] newPhysicsEngineUs)
     = us_bodies (us_frames [0.3] newPhysicsEngineUs)"
proof -
  have h1: "\<forall>d \<in> set [0.1, 0.1, 0.1 :: real]. 0 \<le> d" by simp
  have h2: "\<forall>d \<in> set [0.3 :: real]. 0 \<le> d" by simp
  have h3: "(\<Sum>d\<leftarrow>[0.1, 0.1, 0.1 :: real]. Math_round (d * 1000000))
            = (\<Sum>d\<leftarrow>[0.3 :: real]. Math_round (d * 1000000))"
    by (simp add: Math_round_numeral)
  have h4: "us_accumulatorUs newPhysicsEngineUs = 0"
    by (simp add: newPhysicsEngineUs_def)
  show ?thesis
    using reslicing_determinism[OF h1 h2 h3 h4] by (simp add: Math_round_numeral fixedStepUs_def)
qed

text \<open>
  C1 as the specification words it fails: three calls of 3333.4 microseconds and
  one call of 10000.2 microseconds cover the same time, yet the first driver executes no
  sub-step (each call adds 3333) and the second executes one.
\<close>

theorem reslicing_counterexample:
  "sum_list [0.0033334, 0.0033334, 0.0033334] = sum_list [0.0100002 :: real]
   \<and> (0 :: real) \<le> 0.0033334 \<and> (0 :: real) \<le> 0.0100002
   \<and> stepsTaken (runUs [0.0033334, 0.0033334, 0.0033334] newIntegerAccumulatorTest) = 0
   \<and> stepsTaken (runUs [0.0100002] newIntegerAccumulatorTest) = 1"
proof -
  have a: "Math_round (16667 / 5) = 3333"
    and b: "Math_round (50001 / 5) = 10000"
    by (simp_all add: Math_round_def)
  have "stepsTaken (runUs [0.0033334, 0.0033334, 0.0033334] newIntegerAccumulatorTest) = 0"
    by (subst runUs_steps) (simp_all add: a fixedStepUs_def)
  moreover have "stepsTaken (runUs [0.0100002] newIntegerAccumulatorTest) = 1"
    by (subst runUs_steps) (simp_all add: b fixedStepUs_def)
  ultimately show ?thesis by simp
qed

section \<open>Properties of the floating accumulator\<close>

lemma accumulator_integrateE [simp]: "accumulator (integrateE h e) = accumulator e"
  by (simp add: integrateE_def)

lemma drain_residual:
  "0 \<le> accumulator e \<Longrightarrow> 0 \<le> accumulator (drain e) \<and> accumulator (drain e) < fixedDt"
proof (induction e rule: drain.induct)
  case (1 e)
  show ?case
  proof (cases "fixedDt \<le> accumulator e")
    case True
    let ?e' = "(integrateE fixedDt e)\<lparr>accumulator := accumulator e - fixedDt\<rparr>"
    have "0 \<le> accumulator ?e'" using True by simp
    from "1.IH"[OF True this] have "0 \<le> accumulator (drain ?e') \<and> accumulator (drain ?e') < fixedDt" .
    moreover have "drain e = drain ?e'"
      using True by (subst drain.simps) simp
    ultimately show ?thesis by simp
  next
    case False
    then have "drain e = e" by (subst drain.simps) simp
    with False "1.prems" show ?thesis by simp
  qed
qed

lemma step_residual:
  assumes "0 \<le> accumulator e" "0 \<le> dt e"
  shows "0 \<le> accumulator (step e) \<and> accumulator (step e) < fixedDt"
  unfolding step_def using assms by (intro drain_residual) simp

lemma frames_residual:
  assumes "\<forall>d \<in> set ds. 0 \<le> d" and "0 \<le> accumulator e" "accumulator e < fixedDt"
  shows "0 \<le> accumulator (frames ds e) \<and> accumulator (frames ds e) < fixedDt"
  using assms
proof (induction ds arbitrary: e)
  case Nil
  then show ?case by (simp add: frames_def)
next
  case (Cons d ds)
  let ?e' = "step (e\<lparr>dt := d\<rparr>)"
  have "0 \<le> accumulator ?e' \<and> accumulator ?e' < fixedDt"
    using Cons.prems by (intro step_residual) simp_all
  moreover have "frames (d # ds) e = frames ds ?e'"
    by (simp add: frames_def)
  ultimately show ?case using Cons.IH[of ?e'] Cons.prems(1) by simp
qed

text \<open>
  C6.  Starting from residual 0, after any sequence of calls with non-negative
  increments the residual is in \<open>[0, fixedStep)\<close>: the \<open>accumulator\<close> of the engine lies
  in \<open>[0, fixedDt)\<close>, the \<open>accumulatorUs\<close> of the integer variants (the test class and
  the engine) in \<open>[0, fixedStepUs)\<close>.  Every prefix of a sequence of calls is such a
  sequence, so this holds after each call.
\<close>

theorem accumulator_residual_invariant:
  assumes "\<forall>d \<in> set ds. 0 \<le> d"
    and "accumulator e = 0" and "accumulatorUs s = 0" and "us_accumulatorUs u = 0"
  shows "0 \<le> accumulator (frames ds e) \<and> accumulator (frames ds e) < fixedDt
       \<and> 0 \<le> accumulatorUs (runUs ds s) \<and> accumulatorUs (runUs ds s) < fixedStepUs
       \<and> 0 \<le> us_accumulatorUs (us_frames ds u) \<and> us_accumulatorUs (us_frames ds u) < fixedStepUs"
proof -
  have "0 \<le> us_accumulatorUs (us_frames ds u) \<and> us_accumulatorUs (us_frames ds u) < fixedStepUs"
    using us_frames_closed[OF assms(1), of u] assms(4) by (simp add: fixedStepUs_def)
  moreover
  have "0 \<le> accumulator (frames ds e) \<and> accumulator (frames ds e) < fixedDt"
    using assms(1,2) by (intro frames_residual) (simp_all add: fixedDt_def)
  moreover have "0 \<le> accumulatorUs (runUs ds s) \<and> accumulatorUs (runUs ds s) < fixedStepUs"
    using runUs_invariant[OF assms(1), of s] assms(3) by (simp add: fixedStepUs_def)
  ultimately show ?thesis by simp
qed

theorem accumulator_residual_invariant_witness:
  "0 \<le> accumulator (frames [0.15, 0.304] newPhysicsEngine)
   \<and> accumulator (frames [0.15, 0.304] newPhysicsEngine) < fixedDt
   \<and> 0 \<le> accumulatorUs (runUs [0.15, 0.304] newIntegerAccumulatorTest)
   \<and> accumulatorUs (runUs [0.15, 0.304] newIntegerAccumulatorTest) < fixedStepUs
   \<and> 0 \<le> us_accumulatorUs (us_frames [0.15, 0.304] newPhysicsEngineUs)
   \<and> us_accumulatorUs (us_frames [0.15, 0.304] newPhysicsEngineUs) < fixedStepUs"
proof -
  have h: "\<forall>d \<in> set [0.15, 0.304 :: real]. 0 \<le> d" by simp
  show ?thesis
    by (rule accumulator_residual_invariant[OF h])
       (simp_all add: newPhysicsEngine_def newIntegerAccumulatorTest_def newPhysicsEngineUs_def)
qed

section \<open>loadConfig\<close>

text \<open>
  C8, as the code has it.  \<open>loadConfig\<close> validates nothing: for every configuration,
  whatever its masses and its number of bodies, it installs one body per entry, with
  the entry's position, velocity and mass, and leaves \<open>dt\<close> and the accumulator alone.
  There is no invalid-input failure.
\<close>

theorem loadConfig_installs_every_config:
  "\<exists>bs. bodies (loadConfig cfg e) = Some bs
        \<and> length bs = length cfg
        \<and> map mass bs = map mass cfg
        \<and> map pos bs = map pos cfg
        \<and> map vel bs = map vel cfg
        \<and> dt (loadConfig cfg e) = dt e
        \<and> accumulator (loadConfig cfg e) = accumulator e"
  by (simp add: loadConfig_def comp_def)

text \<open>
  C8 as the specification words it fails: a configuration of one body (not three)
  whose mass is negative is installed as it is.
\<close>

theorem loadConfig_counterexample:
  "bodies (loadConfig
     [\<lparr>pos = Vector 0 0 0, vel = Vector 0 0 0, mass = - 1, cfg_radius = None, cfg_color = None\<rparr>]
     newPhysicsEngine)
   = Some [\<lparr>pos = Vector 0 0 0, vel = Vector 0 0 0, mass = - 1, radius = 5, color = 0xffffff\<rparr>]"
  by (simp add: loadConfig_def newPhysicsEngine_def)

text \<open>
  The defaults of the installed bodies, and the next call of \<open>integrate\<close>: it receives the
  installed bodies as they are.
\<close>

lemma loadConfig_defaults:
  assumes "bodies (loadConfig cfg e) = Some bs" "k < length cfg"
  shows "radius (bs ! k) = (case cfg_radius (cfg ! k) of None \<Rightarrow> 5 | Some r \<Rightarrow> if r = 0 then 5 else r)"
    and "color (bs ! k) =
           (case cfg_color (cfg ! k) of None \<Rightarrow> 0xffffff | Some c \<Rightarrow> if c = 0 then 0xffffff else c)"
  using assms by (auto simp: loadConfig_def)

lemma loadConfig_reaches_integrate:
  assumes "bodies (loadConfig cfg e) = Some bs"
  shows "bodies (integrateE h (loadConfig cfg e)) = integrate app_G app_softening h bs"
  using assms by (simp add: integrateE_def integrateB_def)

section \<open>isUnstable\<close>

lemma anyBeyond_iff: "anyBeyond t bs \<longleftrightarrow> (\<exists>b \<in> set bs. t < mag (pos b))"
  by (induction bs) auto

text \<open>
  C10.  \<open>isUnstable(threshold)\<close> is true exactly when some body's distance from the
  origin, the plain Euclidean norm of its position, is strictly greater than the
  threshold; without an argument the threshold is 5000.  The grid explorer's call is
  the instance \<open>Some 3000\<close>.  The function returns a truth value only: the bodies are
  read, never written.
\<close>

theorem isUnstable_iff_some_body_beyond:
  "isUnstable (Some t) bs = (\<exists>b \<in> set bs. t < sqrt ((vx (pos b))\<^sup>2 + (vy (pos b))\<^sup>2 + (vz (pos b))\<^sup>2))
   \<and> isUnstable None bs = isUnstable (Some 5000) bs
   \<and> isUnstable (Some 3000) bs = (\<exists>b \<in> set bs. 3000 < mag (pos b))"
  by (simp add: isUnstable_def anyBeyond_iff mag_def power2_eq_square)

section \<open>getTotalEnergy\<close>

lemma jsdiv_Some [simp]: "b \<noteq> 0 \<Longrightarrow> jsdiv a b = Some (a / b)"
  by (simp add: jsdiv_def)

lemma jsdiv_zero [simp]: "jsdiv a 0 = None"
  by (simp add: jsdiv_def)

lemma sum3_squares_zero:
  "(a::real) * a + b * b + c * c = 0 \<longleftrightarrow> a = 0 \<and> b = 0 \<and> c = 0"
proof
  assume h: "a * a + b * b + c * c = 0"
  have "0 \<le> a * a" "0 \<le> b * b" "0 \<le> c * c" by simp_all
  with h have "a * a = 0" "b * b = 0" "c * c = 0" by linarith+
  then show "a = 0 \<and> b = 0 \<and> c = 0" by simp
qed simp

lemma dist_v_zero_iff: "dist_v u v = 0 \<longleftrightarrow> u = v"
proof -
  have "0 \<le> (vx u - vx v)\<^sup>2 + (vy u - vy v)\<^sup>2 + (vz u - vz v)\<^sup>2" by simp
  then have "dist_v u v = 0 \<longleftrightarrow> (vx u - vx v) * (vx u - vx v) + (vy u - vy v) * (vy u - vy v)
             + (vz u - vz v) * (vz u - vz v) = 0"
    by (simp add: dist_v_def power2_eq_square)
  also have "\<dots> \<longleftrightarrow> u = v"
    by (auto simp: sum3_squares_zero Vector.expand)
  finally show ?thesis .
qed

lemma energy_inner:
  assumes "\<forall>j \<in> set js. d j \<noteq> 0"
  shows "forEach js (\<lambda>j pe. do { q \<leftarrow> jsdiv (a j) (d j); Some (pe - q) }) pe
         = Some (pe - (\<Sum>j\<leftarrow>js. a j / d j))"
  using assms by (induction js arbitrary: pe) (simp_all add: algebra_simps)

lemma energy_outer:
  assumes "\<forall>i \<in> set is. \<forall>j \<in> set (js i). d i j \<noteq> 0"
  shows "forEach is
           (\<lambda>i (ke, pe). do {
              pe' \<leftarrow> forEach (js i) (\<lambda>j pe. do { q \<leftarrow> jsdiv (a i j) (d i j); Some (pe - q) }) pe;
              Some (ke + K i, pe')
            }) (ke, pe)
         = Some (ke + (\<Sum>i\<leftarrow>is. K i), pe - (\<Sum>i\<leftarrow>is. \<Sum>j\<leftarrow>js i. a i j / d i j))"
  using assms
proof (induction "is" arbitrary: ke pe)
  case Nil
  then show ?case by simp
next
  case (Cons i "is")
  have inner: "forEach (js i) (\<lambda>j pe. do { q \<leftarrow> jsdiv (a i j) (d i j); Some (pe - q) }) pe
               = Some (pe - (\<Sum>j\<leftarrow>js i. a i j / d i j))"
    using Cons.prems by (intro energy_inner) simp
  have rest: "\<forall>i \<in> set is. \<forall>j \<in> set (js i). d i j \<noteq> 0"
    using Cons.prems by simp
  show ?case
    by (simp add: inner Cons.IH[OF rest] algebra_simps)
qed

text \<open>
  C9.  When no two bodies share a position, \<open>getTotalEnergy\<close> returns the kinetic
  energy, the sum of \<open>m |v|\<^sup>2 / 2\<close> over the bodies, plus the potential energy, the sum of
  \<open>- G m\<^sub>i m\<^sub>j / d(i, j)\<close> over the pairs \<open>i < j\<close>, with \<open>d(i, j)\<close> the plain Euclidean
  distance (no softening).  When two bodies coincide the quotient, hence the result, is
  not finite (\<open>getTotalEnergy_nonfinite\<close> below).  The function returns a number only:
  the bodies are read, never written.
\<close>

theorem getTotalEnergy_formula:
  assumes "\<forall>i < length bs. \<forall>j < length bs. i < j \<longrightarrow> pos (bs ! i) \<noteq> pos (bs ! j)"
  shows "getTotalEnergy G bs =
         Some ((\<Sum>i < length bs. 1 / 2 * mass (bs ! i) *
                   ((vx (vel (bs ! i)))\<^sup>2 + (vy (vel (bs ! i)))\<^sup>2 + (vz (vel (bs ! i)))\<^sup>2))
             + (\<Sum>i < length bs. \<Sum>j \<in> {i <..< length bs}.
                   - (G * mass (bs ! i) * mass (bs ! j))
                     / sqrt ((vx (pos (bs ! i)) - vx (pos (bs ! j)))\<^sup>2
                           + (vy (pos (bs ! i)) - vy (pos (bs ! j)))\<^sup>2
                           + (vz (pos (bs ! i)) - vz (pos (bs ! j)))\<^sup>2)))"
proof -
  let ?n = "length bs"
  let ?K = "\<lambda>i. 0.5 * mass (bs ! i) * (mag (vel (bs ! i)))\<^sup>2"
  let ?a = "\<lambda>i j. G * mass (bs ! i) * mass (bs ! j)"
  let ?d = "\<lambda>i j. dist_v (pos (bs ! i)) (pos (bs ! j))"
  have nz: "\<forall>i \<in> set [0..<?n]. \<forall>j \<in> set [i + 1..<?n]. ?d i j \<noteq> 0"
    using assms by (auto simp: dist_v_zero_iff)
  have loop: "forEach [0..<?n]
           (\<lambda>i (ke, pe). do {
              pe' \<leftarrow> forEach [i + 1..<?n] (\<lambda>j pe. do { q \<leftarrow> jsdiv (?a i j) (?d i j); Some (pe - q) }) pe;
              Some (ke + ?K i, pe')
            }) (0, 0)
         = Some (0 + (\<Sum>i\<leftarrow>[0..<?n]. ?K i), 0 - (\<Sum>i\<leftarrow>[0..<?n]. \<Sum>j\<leftarrow>[i + 1..<?n]. ?a i j / ?d i j))"
    by (rule energy_outer[OF nz])
  have mag2: "(mag v)\<^sup>2 = (vx v)\<^sup>2 + (vy v)\<^sup>2 + (vz v)\<^sup>2" for v
    by (simp add: mag_def power2_eq_square)
  have ke: "(\<Sum>i\<leftarrow>[0..<?n]. ?K i)
            = (\<Sum>i < ?n. 1 / 2 * mass (bs ! i) *
                   ((vx (vel (bs ! i)))\<^sup>2 + (vy (vel (bs ! i)))\<^sup>2 + (vz (vel (bs ! i)))\<^sup>2))"
    by (simp add: interv_sum_list_conv_sum_set_nat mag2 atLeast0LessThan)
  have pe: "(\<Sum>i\<leftarrow>[0..<?n]. \<Sum>j\<leftarrow>[i + 1..<?n]. ?a i j / ?d i j)
            = (\<Sum>i < ?n. \<Sum>j \<in> {i <..< ?n}. ?a i j / ?d i j)"
    by (simp add: interv_sum_list_conv_sum_set_nat atLeast0LessThan
        atLeastSucLessThan_greaterThanLessThan)
  have "getTotalEnergy G bs = Some ((\<Sum>i\<leftarrow>[0..<?n]. ?K i)
          - (\<Sum>i\<leftarrow>[0..<?n]. \<Sum>j\<leftarrow>[i + 1..<?n]. ?a i j / ?d i j))"
    unfolding getTotalEnergy_def Let_def loop by simp
  then show ?thesis
    unfolding ke pe by (simp add: dist_v_def sum_negf)
qed


lemma dist_v_self [simp]: "dist_v u u = 0"
  by (simp add: dist_v_def)

lemma forEach_None:
  assumes "k \<in> set ks" and "\<forall>s. f k s = None"
  shows "forEach ks f s = None"
  using assms by (induction ks arbitrary: s) (auto split: option.splits)

lemma getTotalEnergy_nonfinite:
  assumes "i < j" "j < length bs" "pos (bs ! i) = pos (bs ! j)"
  shows "getTotalEnergy G bs = None"
proof -
  have d0: "dist_v (pos (bs ! i)) (pos (bs ! j)) = 0"
    using assms(3) by simp
  have jm: "j \<in> set [Suc i..<length bs]" and im: "i \<in> set [0..<length bs]"
    using assms(1,2) by simp_all
  have inner: "forEach [Suc i..<length bs]
          (\<lambda>j pe. do { q \<leftarrow> jsdiv (G * mass (bs ! i) * mass (bs ! j))
                                    (dist_v (pos (bs ! i)) (pos (bs ! j)));
                        Some (pe - q) }) pe = None" for pe
    by (rule forEach_None[OF jm]) (simp add: d0)
  have "forEach [0..<length bs]
          (\<lambda>i (ke, pe). do {
             pe' \<leftarrow> forEach [Suc i..<length bs]
               (\<lambda>j pe. do {
                  q \<leftarrow> jsdiv (G * mass (bs ! i) * mass (bs ! j))
                             (dist_v (pos (bs ! i)) (pos (bs ! j)));
                  Some (pe - q)
                }) pe;
             Some (ke + 0.5 * mass (bs ! i) * (mag (vel (bs ! i))) ^ 2, pe')
           }) (0, 0) = None"
    by (rule forEach_None[OF im]) (simp add: inner split_def)
  then show ?thesis
    unfolding getTotalEnergy_def Let_def by simp
qed

theorem getTotalEnergy_formula_witness:
  "getTotalEnergy 1000
     [\<lparr>pos = Vector (- 100) 0 0, vel = Vector 0 5 0.5, mass = 20\<rparr>,
      \<lparr>pos = Vector 100 0 0, vel = Vector 0 (- 5) (- 0.5), mass = 20\<rparr>,
      \<lparr>pos = Vector 0 (- 150) 50, vel = Vector 4 0 0, mass = 15\<rparr>]
   = Some (625 - 2000 - 600000 / sqrt 35000)"
proof -
  let ?bs = "[\<lparr>pos = Vector (- 100) 0 0, vel = Vector 0 5 0.5, mass = 20\<rparr>,
      \<lparr>pos = Vector 100 0 0, vel = Vector 0 (- 5) (- 0.5), mass = 20\<rparr>,
      \<lparr>pos = Vector 0 (- 150) 50, vel = Vector 4 0 0, mass = (15::real)\<rparr>]"
  have h: "\<forall>i < length ?bs. \<forall>j < length ?bs. i < j \<longrightarrow> pos (?bs ! i) \<noteq> pos (?bs ! j)"
    by (simp add: All_less_Suc)
  have s: "sqrt 40000 = 200"
    by (rule real_sqrt_unique) simp_all
  show ?thesis
    unfolding getTotalEnergy_formula[OF h]
    by (simp add: lessThan_Suc greaterThanLessThan_def s power2_eq_square)
qed

section \<open>getAccelerations\<close>

lemma forEach_fold:
  assumes "\<forall>k \<in> set ks. \<forall>s. f k s = Some (g k s)"
  shows "forEach ks f s = Some (fold g ks s)"
  using assms by (induction ks arbitrary: s) simp_all

text \<open>
  One row of the pairwise pass, started after rows \<open>0..<i\<close> are complete: entry \<open>i\<close>
  meets its partners \<open>j > i\<close> in increasing order, and each such \<open>j\<close> meets \<open>i\<close>.
\<close>

lemma pair_row:
  fixes c :: "nat \<Rightarrow> nat \<Rightarrow> 'v \<Rightarrow> 'v"
  assumes "i < n" and "Suc i \<le> j" and "j \<le> n" and "length acc = n"
    and "\<forall>k < n. acc ! k = fold (c k) (if k < i then [0..<k] @ [Suc k..<n] else [0..<i]) (ini k)"
  shows "length (fold (\<lambda>j acc. (acc[i := c i j (acc ! i)])
                              [j := c j i ((acc[i := c i j (acc ! i)]) ! j)]) [Suc i..<j] acc) = n
       \<and> (\<forall>k < n. fold (\<lambda>j acc. (acc[i := c i j (acc ! i)])
                              [j := c j i ((acc[i := c i j (acc ! i)]) ! j)]) [Suc i..<j] acc ! k
            = fold (c k) (if k < i then [0..<k] @ [Suc k..<n]
                          else if k = i then [0..<i] @ [Suc i..<j]
                          else if k < j then [0..<Suc i] else [0..<i]) (ini k))"
  using assms(2,3)
proof (induction j rule: dec_induct)
  case base
  show ?case using assms(4,5) by auto
next
  case (step j)
  let ?row = "\<lambda>m. fold (\<lambda>j acc. (acc[i := c i j (acc ! i)])
                              [j := c j i ((acc[i := c i j (acc ! i)]) ! j)]) [Suc i..<m] acc"
  have jn: "j < n" and ij: "i < j" using step by simp_all
  have IH: "length (?row j) = n"
    "\<And>k. k < n \<Longrightarrow> ?row j ! k = fold (c k) (if k < i then [0..<k] @ [Suc k..<n]
                          else if k = i then [0..<i] @ [Suc i..<j]
                          else if k < j then [0..<Suc i] else [0..<i]) (ini k)"
    using step.IH jn by simp_all
  have unfold: "?row (Suc j) = ((?row j)[i := c i j (?row j ! i)])
                              [j := c j i (((?row j)[i := c i j (?row j ! i)]) ! j)]"
    using step.hyps(1) by simp
  have len: "length (?row (Suc j)) = n"
    unfolding unfold using IH(1) by simp
  have ent: "?row (Suc j) ! k = fold (c k) (if k < i then [0..<k] @ [Suc k..<n]
                          else if k = i then [0..<i] @ [Suc i..<Suc j]
                          else if k < Suc j then [0..<Suc i] else [0..<i]) (ini k)"
    if k: "k < n" for k
  proof -
    consider "k = i" | "k = j" | "k \<noteq> i" "k \<noteq> j" by blast
    then show ?thesis
    proof cases
      case 1
      then show ?thesis
        unfolding unfold using IH(1) IH(2)[of i] assms(1) ij step.hyps(1) by simp
    next
      case 2
      then show ?thesis
        unfolding unfold using IH(1) IH(2)[of j] jn ij by simp
    next
      case 3
      then show ?thesis
        unfolding unfold using IH(1) IH(2)[OF k] by auto
    qed
  qed
  show ?case using len ent by blast
qed

lemma pair_pass:
  fixes c :: "nat \<Rightarrow> nat \<Rightarrow> 'v \<Rightarrow> 'v"
  assumes "i \<le> n" and "length acc0 = n"
  shows "length (fold (\<lambda>i. fold (\<lambda>j acc. (acc[i := c i j (acc ! i)])
                              [j := c j i ((acc[i := c i j (acc ! i)]) ! j)]) [Suc i..<n])
                  [0..<i] acc0) = n
       \<and> (\<forall>k < n. fold (\<lambda>i. fold (\<lambda>j acc. (acc[i := c i j (acc ! i)])
                              [j := c j i ((acc[i := c i j (acc ! i)]) ! j)]) [Suc i..<n])
                  [0..<i] acc0 ! k
            = fold (c k) (if k < i then [0..<k] @ [Suc k..<n] else [0..<i]) (acc0 ! k))"
  using assms(1)
proof (induction i)
  case 0
  show ?case using assms(2) by simp
next
  case (Suc i)
  let ?rows = "\<lambda>m. fold (\<lambda>i. fold (\<lambda>j acc. (acc[i := c i j (acc ! i)])
                              [j := c j i ((acc[i := c i j (acc ! i)]) ! j)]) [Suc i..<n])
                  [0..<m] acc0"
  have i: "i < n" using Suc.prems by simp
  have IH: "length (?rows i) = n"
    "\<forall>k < n. ?rows i ! k = fold (c k) (if k < i then [0..<k] @ [Suc k..<n] else [0..<i]) (acc0 ! k)"
    using Suc.IH i by simp_all
  have unfold: "?rows (Suc i) = fold (\<lambda>j acc. (acc[i := c i j (acc ! i)])
                              [j := c j i ((acc[i := c i j (acc ! i)]) ! j)]) [Suc i..<n] (?rows i)"
    by simp
  have row: "length (?rows (Suc i)) = n"
    "\<And>k. k < n \<Longrightarrow> ?rows (Suc i) ! k = fold (c k) (if k < i then [0..<k] @ [Suc k..<n]
                          else if k = i then [0..<i] @ [Suc i..<n]
                          else if k < n then [0..<Suc i] else [0..<i]) (acc0 ! k)"
    unfolding unfold using pair_row[where j = n and c = c and ini = "\<lambda>k. acc0 ! k", OF i _ _ IH(1) IH(2)] i by simp_all
  have "?rows (Suc i) ! k = fold (c k) (if k < Suc i then [0..<k] @ [Suc k..<n] else [0..<Suc i]) (acc0 ! k)"
    if k: "k < n" for k
    using row(2)[OF k] k by (auto simp: less_Suc_eq)
  then show ?case using row(1) by blast
qed

lemma mag_sub_zero_iff: "mag (sub u v) = 0 \<longleftrightarrow> u = v"
proof -
  have "0 \<le> (vx u - vx v) * (vx u - vx v) + (vy u - vy v) * (vy u - vy v)
           + (vz u - vz v) * (vz u - vz v)" by simp
  then have "mag (sub u v) = 0 \<longleftrightarrow> (vx u - vx v) * (vx u - vx v) + (vy u - vy v) * (vy u - vy v)
             + (vz u - vz v) * (vz u - vz v) = 0"
    by (simp add: mag_def sub_def)
  also have "\<dots> \<longleftrightarrow> u = v"
    by (auto simp: sum3_squares_zero Vector.expand)
  finally show ?thesis .
qed

lemma pairForce_finite:
  assumes "pos (state ! i) \<noteq> pos (state ! j)"
    and "mass (state ! i) \<noteq> 0" and "mass (state ! j) \<noteq> 0"
  shows "pairForce G softening state i j acc =
         Some ((acc[i := add (acc ! i)
                  (mult (mult (sub (pos (state ! j)) (pos (state ! i)))
                     (G * mass (state ! i) * mass (state ! j)
                        / ((mag (sub (pos (state ! j)) (pos (state ! i))))\<^sup>2 + softening\<^sup>2)
                        / mag (sub (pos (state ! j)) (pos (state ! i)))))
                     (1 / mass (state ! i)))])
               [j := sub ((acc[i := add (acc ! i)
                  (mult (mult (sub (pos (state ! j)) (pos (state ! i)))
                     (G * mass (state ! i) * mass (state ! j)
                        / ((mag (sub (pos (state ! j)) (pos (state ! i))))\<^sup>2 + softening\<^sup>2)
                        / mag (sub (pos (state ! j)) (pos (state ! i)))))
                     (1 / mass (state ! i)))]) ! j)
                  (mult (mult (sub (pos (state ! j)) (pos (state ! i)))
                     (G * mass (state ! i) * mass (state ! j)
                        / ((mag (sub (pos (state ! j)) (pos (state ! i))))\<^sup>2 + softening\<^sup>2)
                        / mag (sub (pos (state ! j)) (pos (state ! i)))))
                     (1 / mass (state ! j)))])"
proof -
  let ?d = "mag (sub (pos (state ! j)) (pos (state ! i)))"
  have d: "?d \<noteq> 0" using assms(1) by (simp add: mag_sub_zero_iff)
  then have "0 < ?d * ?d" using not_real_square_gt_zero[of ?d] by blast
  moreover have "0 \<le> softening\<^sup>2" by simp
  ultimately have dsq: "?d * ?d + softening\<^sup>2 \<noteq> 0" by linarith
  show ?thesis
    unfolding pairForce_def Let_def
    using d dsq assms(2,3) by (simp add: power2_eq_square)
qed


lemma getAccelerations_closed:
  fixes state :: "'a body_scheme list"
  assumes "\<forall>i < length state. \<forall>j < length state. i < j \<longrightarrow> pos (state ! i) \<noteq> pos (state ! j)"
    and "\<forall>i < length state. mass (state ! i) \<noteq> 0"
  shows "getAccelerations G softening state =
         Some (map (\<lambda>k. fold
                 (\<lambda>l a. let i = min k l; j = max k l;
                            r = sub (pos (state ! j)) (pos (state ! i));
                            d = mag r;
                            F = G * mass (state ! i) * mass (state ! j) / (d\<^sup>2 + softening\<^sup>2);
                            F_vec = mult r (F / d)
                        in if k < l then add a (mult F_vec (1 / mass (state ! k)))
                           else sub a (mult F_vec (1 / mass (state ! k))))
                 ([0..<k] @ [Suc k..<length state]) (Vector 0 0 0))
               [0..<length state])"
proof -
  let ?n = "length state"
  define c where "c = (\<lambda>k l a. let i = min k l; j = max k l;
                            r = sub (pos (state ! j)) (pos (state ! i));
                            d = mag r;
                            F = G * mass (state ! i) * mass (state ! j) / (d\<^sup>2 + softening\<^sup>2);
                            F_vec = mult r (F / d)
                        in if k < l then add a (mult F_vec (1 / mass (state ! k)))
                           else sub a (mult F_vec (1 / mass (state ! k))))"
  let ?pair = "\<lambda>i j acc. (acc[i := c i j (acc ! i)])[j := c j i ((acc[i := c i j (acc ! i)]) ! j)]"
  have pair: "pairForce G softening state i j acc = Some (?pair i j acc)"
    if "i < j" "j < ?n" for i j acc
  proof -
    have "pos (state ! i) \<noteq> pos (state ! j)" "mass (state ! i) \<noteq> 0" "mass (state ! j) \<noteq> 0"
      using assms that by simp_all
    from pairForce_finite[OF this] show ?thesis
      using that(1) by (simp add: c_def Let_def min_def max_def)
  qed
  have row: "forEach [Suc i..<?n] (pairForce G softening state i) acc
             = Some (fold (?pair i) [Suc i..<?n] acc)" for i acc
    using forEach_fold[of "[Suc i..<?n]" "pairForce G softening state i" "?pair i" acc]
    by (simp add: pair)
  have "getAccelerations G softening state
        = Some (fold (\<lambda>i. fold (?pair i) [Suc i..<?n]) [0..<?n] (replicate ?n (Vector 0 0 0)))"
    unfolding getAccelerations_def Let_def
    by (rule forEach_fold) (simp add: row)
  moreover have "fold (\<lambda>i. fold (?pair i) [Suc i..<?n]) [0..<?n] (replicate ?n (Vector 0 0 0))
        = map (\<lambda>k. fold (c k) ([0..<k] @ [Suc k..<?n]) (Vector 0 0 0)) [0..<?n]"
    using pair_pass[of ?n ?n "replicate ?n (Vector 0 0 0)" c]
    by (intro nth_equalityI) simp_all
  ultimately show ?thesis by (simp add: c_def)
qed



text \<open>
  C4.  For \<open>n\<close> bodies with pairwise distinct positions (and non-zero masses, which the
  divisions \<open>1 / mass\<close> need), \<open>getAccelerations\<close> returns \<open>n\<close> vectors.  For the pair
  \<open>i < j\<close> with \<open>r = pos\<^sub>j - pos\<^sub>i\<close> and \<open>d = |r|\<close>, the force has the magnitude
  \<open>F = G m\<^sub>i m\<^sub>j / (d\<^sup>2 + softening\<^sup>2)\<close> and the vector \<open>F_vec = r (F / d)\<close>, with the
  plain \<open>d\<close>; \<open>F_vec / m\<^sub>i\<close> is added to entry \<open>i\<close> and \<open>F_vec / m\<^sub>j\<close> is subtracted from
  entry \<open>j\<close>.  Entry \<open>k\<close> starts at zero and meets its partners \<open>l \<noteq> k\<close> in increasing
  order.  The result is a new list: the state is an argument only.
\<close>

theorem getAccelerations_pairwise:
  fixes state :: "'a body_scheme list"
  assumes "\<forall>i < length state. \<forall>j < length state. i < j \<longrightarrow> pos (state ! i) \<noteq> pos (state ! j)"
    and "\<forall>i < length state. mass (state ! i) \<noteq> 0"
  shows "getAccelerations G softening state =
         Some (map (\<lambda>k. fold
                 (\<lambda>l a. let i = min k l; j = max k l;
                            r = sub (pos (state ! j)) (pos (state ! i));
                            d = mag r;
                            F = G * mass (state ! i) * mass (state ! j) / (d\<^sup>2 + softening\<^sup>2);
                            F_vec = mult r (F / d)
                        in if k < l then add a (mult F_vec (1 / mass (state ! k)))
                           else sub a (mult F_vec (1 / mass (state ! k))))
                 ([0..<k] @ [Suc k..<length state]) (Vector 0 0 0))
               [0..<length state])"
  using assms by (rule getAccelerations_closed)

lemma mag_axis: "mag (Vector a 0 0) = \<bar>a\<bar>"
  by (simp add: mag_def)

theorem getAccelerations_pairwise_witness:
  "getAccelerations 1000 5
     [\<lparr>pos = Vector (- 100) 0 0, vel = Vector 0 5 0.5, mass = 20\<rparr>,
      \<lparr>pos = Vector 100 0 0, vel = Vector 0 (- 5) (- 0.5), mass = 20\<rparr>,
      \<lparr>pos = Vector 400 0 0, vel = Vector 4 0 0, mass = 15\<rparr>]
   = Some [Vector (8961400 / 16011601) 0 0,
           Vector (- (1920200 / 5765201)) 0 0,
           Vector (- (10881600 / 36013601)) 0 0]"
proof -
  let ?state = "[\<lparr>pos = Vector (- 100) 0 0, vel = Vector 0 5 0.5, mass = 20\<rparr>,
      \<lparr>pos = Vector 100 0 0, vel = Vector 0 (- 5) (- 0.5), mass = 20\<rparr>,
      \<lparr>pos = Vector 400 0 0, vel = Vector 4 0 0, mass = (15::real)\<rparr>]"
  have h1: "\<forall>i < length ?state. \<forall>j < length ?state. i < j \<longrightarrow> pos (?state ! i) \<noteq> pos (?state ! j)"
    by (simp add: All_less_Suc)
  have h2: "\<forall>i < length ?state. mass (?state ! i) \<noteq> 0"
    by (simp add: All_less_Suc)
  show ?thesis
    unfolding getAccelerations_pairwise[OF h1 h2]
    by (simp add: Let_def sub_def add_def mult_def mag_axis)
qed

section \<open>integrate\<close>

lemma clone_id [simp]: "clone u = u"
  by (cases u) (simp add: clone_def)

lemma length_mapi [simp]: "length (mapi f xs) = length xs"
  by (simp add: mapi_def)

lemma nth_mapi [simp]: "i < length xs \<Longrightarrow> mapi f xs ! i = f (xs ! i) i"
  by (simp add: mapi_def)

lemma length_stage [simp]: "length (stage state v a k) = length state"
  by (simp add: stage_def)

lemma nth_stage:
  "i < length state \<Longrightarrow>
   stage state v a k ! i = \<lparr>pos = add (pos (state ! i)) (mult (v ! i) k),
                            vel = add (vel (state ! i)) (mult (a ! i) k),
                            mass = mass (state ! i)\<rparr>"
  by (simp add: stage_def)

lemma commit_update:
  assumes "i < length bs"
  shows "commit h a1 a2 a3 a4 v1 v2 v3 v4 i bs =
         bs[i := (bs ! i)\<lparr>
           vel := add (vel (bs ! i))
                    (mult (add (add (add (a1 ! i) (mult (a2 ! i) 2)) (mult (a3 ! i) 2)) (a4 ! i)) (h / 6)),
           pos := add (pos (bs ! i))
                    (mult (add (add (add (v1 ! i) (mult (v2 ! i) 2)) (mult (v3 ! i) 2)) (v4 ! i)) (h / 6))\<rparr>]"
  using assms by (simp add: commit_def Let_def)


text \<open>
  The final loop writes entry \<open>i\<close> from entry \<open>i\<close> alone, so running it over all indices
  changes every body from its original value.
\<close>

lemma fold_commit:
  assumes "n \<le> length bs"
  shows "length (fold (commit h a1 a2 a3 a4 v1 v2 v3 v4) [0..<n] bs) = length bs
       \<and> (\<forall>k < length bs. fold (commit h a1 a2 a3 a4 v1 v2 v3 v4) [0..<n] bs ! k
             = (if k < n
                then (bs ! k)\<lparr>
                  vel := add (vel (bs ! k))
                    (mult (add (add (add (a1 ! k) (mult (a2 ! k) 2)) (mult (a3 ! k) 2)) (a4 ! k)) (h / 6)),
                  pos := add (pos (bs ! k))
                    (mult (add (add (add (v1 ! k) (mult (v2 ! k) 2)) (mult (v3 ! k) 2)) (v4 ! k)) (h / 6))\<rparr>
                else bs ! k))"
  using assms
proof (induction n)
  case 0
  show ?case by simp
next
  case (Suc n)
  let ?f = "fold (commit h a1 a2 a3 a4 v1 v2 v3 v4) [0..<n] bs"
  have n: "n < length bs" using Suc.prems by simp
  have IH: "length ?f = length bs"
    "\<And>k. k < length bs \<Longrightarrow> ?f ! k
             = (if k < n
                then (bs ! k)\<lparr>
                  vel := add (vel (bs ! k))
                    (mult (add (add (add (a1 ! k) (mult (a2 ! k) 2)) (mult (a3 ! k) 2)) (a4 ! k)) (h / 6)),
                  pos := add (pos (bs ! k))
                    (mult (add (add (add (v1 ! k) (mult (v2 ! k) 2)) (mult (v3 ! k) 2)) (v4 ! k)) (h / 6))\<rparr>
                else bs ! k)"
    using Suc by simp_all
  have step: "fold (commit h a1 a2 a3 a4 v1 v2 v3 v4) [0..<Suc n] bs
              = commit h a1 a2 a3 a4 v1 v2 v3 v4 n ?f"
    by simp
  have nf: "n < length ?f" using n IH(1) by simp
  show ?case
    unfolding step commit_update[OF nf]
    using IH(1) IH(2)[OF n] IH(2) n by (auto simp: nth_list_update less_Suc_eq)
qed

lemma integrate_closed:
  fixes bs :: "'a body_scheme list"
  assumes "getAccelerations G softening
             (map (\<lambda>i. \<lparr>pos = pos (bs ! i), vel = vel (bs ! i), mass = mass (bs ! i)\<rparr>)
                [0..<length bs]) = Some a1"
    and "getAccelerations G softening
             (map (\<lambda>i. \<lparr>pos = add (pos (bs ! i)) (mult (vel (bs ! i)) (h / 2)),
                        vel = add (vel (bs ! i)) (mult (a1 ! i) (h / 2)),
                        mass = mass (bs ! i)\<rparr>)
                [0..<length bs]) = Some a2"
    and "getAccelerations G softening
             (map (\<lambda>i. \<lparr>pos = add (pos (bs ! i)) (mult (add (vel (bs ! i)) (mult (a1 ! i) (h / 2))) (h / 2)),
                        vel = add (vel (bs ! i)) (mult (a2 ! i) (h / 2)),
                        mass = mass (bs ! i)\<rparr>)
                [0..<length bs]) = Some a3"
    and "getAccelerations G softening
             (map (\<lambda>i. \<lparr>pos = add (pos (bs ! i)) (mult (add (vel (bs ! i)) (mult (a2 ! i) (h / 2))) h),
                        vel = add (vel (bs ! i)) (mult (a3 ! i) h),
                        mass = mass (bs ! i)\<rparr>)
                [0..<length bs]) = Some a4"
  shows "integrate G softening h bs =
         Some (map (\<lambda>i. (bs ! i)\<lparr>
                  vel := add (vel (bs ! i))
                    (mult (add (add (add (a1 ! i) (mult (a2 ! i) 2)) (mult (a3 ! i) 2)) (a4 ! i)) (h / 6)),
                  pos := add (pos (bs ! i))
                    (mult (add (add (add (vel (bs ! i))
                                         (mult (add (vel (bs ! i)) (mult (a1 ! i) (h / 2))) 2))
                                    (mult (add (vel (bs ! i)) (mult (a2 ! i) (h / 2))) 2))
                               (add (vel (bs ! i)) (mult (a3 ! i) h)))
                          (h / 6))\<rparr>)
               [0..<length bs])"
proof -
  let ?n = "length bs"
  let ?state = "map (\<lambda>b. \<lparr>pos = clone (pos b), vel = clone (vel b), mass = mass b\<rparr>) bs"
  let ?s2 = "stage ?state (map vel ?state) a1 (h * 0.5)"
  let ?s3 = "stage ?state (map vel ?s2) a2 (h * 0.5)"
  let ?s4 = "stage ?state (map vel ?s3) a3 h"
  have e1: "?state = map (\<lambda>i. \<lparr>pos = pos (bs ! i), vel = vel (bs ! i), mass = mass (bs ! i)\<rparr>)
                [0..<?n]"
    by (intro nth_equalityI) simp_all
  have e2: "?s2 = map (\<lambda>i. \<lparr>pos = add (pos (bs ! i)) (mult (vel (bs ! i)) (h / 2)),
                        vel = add (vel (bs ! i)) (mult (a1 ! i) (h / 2)),
                        mass = mass (bs ! i)\<rparr>) [0..<?n]"
    by (intro nth_equalityI) (simp_all add: nth_stage)
  have e3: "?s3 = map (\<lambda>i. \<lparr>pos = add (pos (bs ! i)) (mult (add (vel (bs ! i)) (mult (a1 ! i) (h / 2))) (h / 2)),
                        vel = add (vel (bs ! i)) (mult (a2 ! i) (h / 2)),
                        mass = mass (bs ! i)\<rparr>) [0..<?n]"
    by (intro nth_equalityI) (simp_all add: nth_stage)
  have e4: "?s4 = map (\<lambda>i. \<lparr>pos = add (pos (bs ! i)) (mult (add (vel (bs ! i)) (mult (a2 ! i) (h / 2))) h),
                        vel = add (vel (bs ! i)) (mult (a3 ! i) h),
                        mass = mass (bs ! i)\<rparr>) [0..<?n]"
    by (intro nth_equalityI) (simp_all add: nth_stage)
  have g1: "getAccelerations G softening ?state = Some a1" using assms(1) e1 by simp
  have g2: "getAccelerations G softening ?s2 = Some a2" using assms(2) e2 by simp
  have g3: "getAccelerations G softening ?s3 = Some a3" using assms(3) e3 by simp
  have g4: "getAccelerations G softening ?s4 = Some a4" using assms(4) e4 by simp
  have run: "integrate G softening h bs =
        Some (fold (commit h a1 a2 a3 a4 (map vel ?state) (map vel ?s2) (map vel ?s3) (map vel ?s4))
                [0..<?n] bs)"
    unfolding integrate_def Let_def by (simp only: g1 g2 g3 g4 Option.bind.simps)
  show ?thesis
    unfolding run
    using fold_commit[of ?n bs h a1 a2 a3 a4 "map vel ?state" "map vel ?s2" "map vel ?s3" "map vel ?s4"]
    by (intro arg_cong[where f = Some] nth_equalityI) (simp_all add: nth_stage)
qed


lemma integrate_frame:
  assumes "integrate G softening h bs = Some bs'"
  shows "length bs' = length bs \<and> map mass bs' = map mass bs \<and> map body.more bs' = map body.more bs"
proof -
  from assms obtain a1 a2 a3 a4 v1 v2 v3 v4
    where "bs' = fold (commit h a1 a2 a3 a4 v1 v2 v3 v4) [0..<length bs] bs"
    by (auto simp: integrate_def Let_def bind_eq_Some_conv)
  then show ?thesis
    using fold_commit[of "length bs" bs h a1 a2 a3 a4 v1 v2 v3 v4]
    by (auto intro!: nth_equalityI)
qed

lemmas eval_accel = getAccelerations_def pairForce_def jsdiv_def Let_def sub_def add_def mult_def mag_axis

text \<open>
  C5.  One step of duration \<open>h\<close> evaluates the accelerator four times: at the state
  itself (\<open>a1\<close>, with \<open>v1\<close> the velocities), at the state advanced by \<open>(v1, a1) h/2\<close>
  (\<open>a2\<close>; \<open>v2 = v1 + a1 h/2\<close>), by \<open>(v2, a2) h/2\<close> (\<open>a3\<close>; \<open>v3 = v1 + a2 h/2\<close>) and by
  \<open>(v3, a3) h\<close> (\<open>a4\<close>; \<open>v4 = v1 + a3 h\<close>), each time from the original positions and
  velocities.  The new velocity of body \<open>i\<close> is the old one plus
  \<open>(a1 + 2 a2 + 2 a3 + a4) h/6\<close>, the new position the old one plus
  \<open>(v1 + 2 v2 + 2 v3 + v4) h/6\<close>; the masses (and the rest of each body) are unchanged.
\<close>

theorem integrate_rk4:
  fixes bs :: "'a body_scheme list"
  assumes "getAccelerations G softening
             (map (\<lambda>i. \<lparr>pos = pos (bs ! i), vel = vel (bs ! i), mass = mass (bs ! i)\<rparr>)
                [0..<length bs]) = Some a1"
    and "getAccelerations G softening
             (map (\<lambda>i. \<lparr>pos = add (pos (bs ! i)) (mult (vel (bs ! i)) (h / 2)),
                        vel = add (vel (bs ! i)) (mult (a1 ! i) (h / 2)),
                        mass = mass (bs ! i)\<rparr>)
                [0..<length bs]) = Some a2"
    and "getAccelerations G softening
             (map (\<lambda>i. \<lparr>pos = add (pos (bs ! i)) (mult (add (vel (bs ! i)) (mult (a1 ! i) (h / 2))) (h / 2)),
                        vel = add (vel (bs ! i)) (mult (a2 ! i) (h / 2)),
                        mass = mass (bs ! i)\<rparr>)
                [0..<length bs]) = Some a3"
    and "getAccelerations G softening
             (map (\<lambda>i. \<lparr>pos = add (pos (bs ! i)) (mult (add (vel (bs ! i)) (mult (a2 ! i) (h / 2))) h),
                        vel = add (vel (bs ! i)) (mult (a3 ! i) h),
                        mass = mass (bs ! i)\<rparr>)
                [0..<length bs]) = Some a4"
  shows "\<exists>bs'. integrate G softening h bs = Some bs'
          \<and> bs' = (map (\<lambda>i. (bs ! i)\<lparr>
                  vel := add (vel (bs ! i))
                    (mult (add (add (add (a1 ! i) (mult (a2 ! i) 2)) (mult (a3 ! i) 2)) (a4 ! i)) (h / 6)),
                  pos := add (pos (bs ! i))
                    (mult (add (add (add (vel (bs ! i))
                                         (mult (add (vel (bs ! i)) (mult (a1 ! i) (h / 2))) 2))
                                    (mult (add (vel (bs ! i)) (mult (a2 ! i) (h / 2))) 2))
                               (add (vel (bs ! i)) (mult (a3 ! i) h)))
                          (h / 6))\<rparr>)
               [0..<length bs])
          \<and> length bs' = length bs
          \<and> map mass bs' = map mass bs"
  using integrate_closed[OF assms] integrate_frame[of G softening h bs] by simp

theorem integrate_rk4_witness:
  "integrate 169 5 2
     [\<lparr>pos = Vector (- 6) 0 0, vel = Vector 0 0 0, mass = 1\<rparr>,
      \<lparr>pos = Vector 6 0 0, vel = Vector 0 0 0, mass = 1\<rparr>]
   = Some [\<lparr>pos = Vector (- (1412 / 375)) 0 0, vel = Vector (28194 / 11125) 0 0, mass = 1\<rparr>,
           \<lparr>pos = Vector (1412 / 375) 0 0, vel = Vector (- (28194 / 11125)) 0 0, mass = 1\<rparr>]"
proof -
  let ?bs = "[\<lparr>pos = Vector (- 6) 0 0, vel = Vector 0 0 0, mass = 1\<rparr>,
      \<lparr>pos = Vector 6 0 0, vel = Vector 0 0 0, mass = (1::real)\<rparr>]"
  let ?a1 = "[Vector 1 0 0, Vector (- 1) 0 0]"
  let ?a3 = "[Vector (169 / 125) 0 0, Vector (- (169 / 125)) 0 0]"
  let ?a4 = "[Vector (169 / 89) 0 0, Vector (- (169 / 89)) 0 0]"
  have g1: "getAccelerations 169 5
             (map (\<lambda>i. \<lparr>pos = pos (?bs ! i), vel = vel (?bs ! i), mass = mass (?bs ! i)\<rparr>)
                [0..<length ?bs]) = Some ?a1"
    by (simp add: eval_accel)
  have g2: "getAccelerations 169 5
             (map (\<lambda>i. \<lparr>pos = add (pos (?bs ! i)) (mult (vel (?bs ! i)) (2 / 2)),
                        vel = add (vel (?bs ! i)) (mult (?a1 ! i) (2 / 2)),
                        mass = mass (?bs ! i)\<rparr>)
                [0..<length ?bs]) = Some ?a1"
    by (simp add: eval_accel)
  have g3: "getAccelerations 169 5
             (map (\<lambda>i. \<lparr>pos = add (pos (?bs ! i)) (mult (add (vel (?bs ! i)) (mult (?a1 ! i) (2 / 2))) (2 / 2)),
                        vel = add (vel (?bs ! i)) (mult (?a1 ! i) (2 / 2)),
                        mass = mass (?bs ! i)\<rparr>)
                [0..<length ?bs]) = Some ?a3"
    by (simp add: eval_accel)
  have g4: "getAccelerations 169 5
             (map (\<lambda>i. \<lparr>pos = add (pos (?bs ! i)) (mult (add (vel (?bs ! i)) (mult (?a1 ! i) (2 / 2))) 2),
                        vel = add (vel (?bs ! i)) (mult (?a3 ! i) 2),
                        mass = mass (?bs ! i)\<rparr>)
                [0..<length ?bs]) = Some ?a4"
    by (simp add: eval_accel)
  show ?thesis
    using integrate_rk4[OF g1 g2 g3 g4]
    by (auto simp: add_def mult_def)
qed

section \<open>The stability sweep\<close>

lemma softened_pos: "0 < (a::real) * a + b * b + c * c + 25"
proof -
  have "0 \<le> a * a" "0 \<le> b * b" "0 \<le> c * c" by simp_all
  then show ?thesis by linarith
qed

lemma softened_nonzero [simp]: "(a::real) * a + b * b + c * c + 25 \<noteq> 0"
  using softened_pos[of a b c] by simp

lemma sqrt_softened_nonzero [simp]: "sqrt ((a::real) * a + b * b + c * c + 25) \<noteq> 0"
  using softened_pos[of a b c] by simp

lemma attract_self [simp]: "attract bs a a acc = Inr acc"
  by (simp add: attract_def split: prod.splits)

lemma attract_Inr:
  assumes "a \<noteq> b" "a < length bs" "b < length bs"
  shows "attract bs a b (ax, ay, az) =
         Inr (let dx = vx (pos (bs ! b)) - vx (pos (bs ! a));
                  dy = vy (pos (bs ! b)) - vy (pos (bs ! a));
                  dz = vz (pos (bs ! b)) - vz (pos (bs ! a));
                  d2 = dx * dx + dy * dy + dz * dz + 25;
                  d = sqrt d2;
                  f = sim_G * mass (bs ! b) / d2
              in (ax + f * (dx / d), ay + f * (dy / d), az + f * (dz / d)))"
  using assms
  by (simp add: attract_def element_def bindF_def finite_or_def jsdiv_def Let_def)

lemma attract_pull:
  assumes "a \<noteq> b" "a < length bs" "b < length bs"
  shows "attract bs a b acc =
         Inr (fst acc + fst (pull bs a b), fst (snd acc) + fst (snd (pull bs a b)),
              snd (snd acc) + snd (snd (pull bs a b)))"
proof -
  obtain ax ay az where acc: "acc = (ax, ay, az)" by (cases acc) auto
  show ?thesis
    unfolding acc attract_Inr[OF assms] by (simp add: pull_def Let_def)
qed

lemma upt_3: "[0..<3] = [0, Suc 0, 2]"
  by (simp add: upt_rec)

lemma pull_kicked [simp]:
  "c < length bs \<Longrightarrow> pos e = pos (bs ! c) \<Longrightarrow> mass e = mass (bs ! c) \<Longrightarrow>
   pull (bs[c := e]) a b = pull bs a b"
  by (simp add: pull_def Let_def nth_list_update)

text \<open>The sum of the pulls on body \<open>a\<close>, in the order of the loop.\<close>

lemma kick_Inr:
  assumes "3 \<le> length bs" "a < 3"
  shows "kick a bs = Inr (bs[a := (bs ! a)\<lparr>vel := kicked bs a\<rparr>])"
proof -
  have len: "0 < length bs" "Suc 0 < length bs" "2 < length bs"
    using assms(1) by auto
  have "a = 0 \<or> a = 1 \<or> a = 2" using assms(2) by auto
  then show ?thesis
    using len
    by (auto simp: kick_def kicked_def upt_3 attract_pull bindF_def element_def)
qed

lemma kicked_kicked [simp]:
  "c < length bs \<Longrightarrow> c \<noteq> a \<Longrightarrow> pos e = pos (bs ! c) \<Longrightarrow> mass e = mass (bs ! c) \<Longrightarrow>
   kicked (bs[c := e]) a = kicked bs a"
  by (simp add: kicked_def)

lemma drift_Inr:
  assumes "a < length bs"
  shows "drift a (bs, m) =
         Inr (bs[a := (bs ! a)\<lparr>pos :=
                 Vector (vx (pos (bs ! a)) + vx (vel (bs ! a)) * sim_dt)
                        (vy (pos (bs ! a)) + vy (vel (bs ! a)) * sim_dt)
                        (vz (pos (bs ! a)) + vz (vel (bs ! a)) * sim_dt)\<rparr>],
              max m ((vx (pos (bs ! a)) + vx (vel (bs ! a)) * sim_dt)\<^sup>2
                   + (vy (pos (bs ! a)) + vy (vel (bs ! a)) * sim_dt)\<^sup>2
                   + (vz (pos (bs ! a)) + vz (vel (bs ! a)) * sim_dt)\<^sup>2))"
  using assms by (simp add: drift_def element_def bindF_def Let_def)

lemma drift_moved:
  assumes "a < length cur" "pos (cur ! a) = pos (bs ! a)" "vel (cur ! a) = kicked bs a"
  shows "drift a (cur, m) =
         Inr (cur[a := (cur ! a)\<lparr>pos := moved bs a\<rparr>],
              max m ((vx (moved bs a))\<^sup>2 + (vy (moved bs a))\<^sup>2 + (vz (moved bs a))\<^sup>2))"
  unfolding drift_Inr[OF assms(1)] assms(2,3) moved_def by simp

text \<open>One pass in closed form.\<close>

lemma sweepStep_closed:
  fixes bs :: "'a body_scheme list"
  assumes "3 \<le> length bs"
  shows "sweepStep bs =
         Inr (map (\<lambda>a. if a < 3 then (bs ! a)\<lparr>pos := moved bs a, vel := kicked bs a\<rparr> else bs ! a)
                [0..<length bs],
              max (max (max 0 ((vx (moved bs 0))\<^sup>2 + (vy (moved bs 0))\<^sup>2 + (vz (moved bs 0))\<^sup>2))
                            ((vx (moved bs 1))\<^sup>2 + (vy (moved bs 1))\<^sup>2 + (vz (moved bs 1))\<^sup>2))
                            ((vx (moved bs 2))\<^sup>2 + (vy (moved bs 2))\<^sup>2 + (vz (moved bs 2))\<^sup>2))"
proof -
  have len: "0 < length bs" "Suc 0 < length bs" "2 < length bs"
    using assms(1) by auto
  let ?k0 = "bs[0 := (bs ! 0)\<lparr>vel := kicked bs 0\<rparr>]"
  let ?k1 = "?k0[Suc 0 := (bs ! Suc 0)\<lparr>vel := kicked bs (Suc 0)\<rparr>]"
  let ?k2 = "?k1[2 := (bs ! 2)\<lparr>vel := kicked bs 2\<rparr>]"
  have k0: "kick 0 bs = Inr ?k0"
    using kick_Inr[OF assms(1), of 0] by simp
  have k1: "kick (Suc 0) ?k0 = Inr ?k1"
    using kick_Inr[of ?k0 "Suc 0"] len by simp
  have k2: "kick 2 ?k1 = Inr ?k2"
    using kick_Inr[of ?k1 2] len by simp
  have kicks: "forEachF [0..<3] kick bs = Inr ?k2"
    by (simp only: upt_3 forEachF.simps k0 k1 k2 sum.case)
  let ?d0 = "?k2[0 := (?k2 ! 0)\<lparr>pos := moved bs 0\<rparr>]"
  let ?d1 = "?d0[Suc 0 := (?d0 ! Suc 0)\<lparr>pos := moved bs (Suc 0)\<rparr>]"
  let ?d2 = "?d1[2 := (?d1 ! 2)\<lparr>pos := moved bs 2\<rparr>]"
  let ?m0 = "max 0 ((vx (moved bs 0))\<^sup>2 + (vy (moved bs 0))\<^sup>2 + (vz (moved bs 0))\<^sup>2)"
  let ?m1 = "max ?m0 ((vx (moved bs (Suc 0)))\<^sup>2 + (vy (moved bs (Suc 0)))\<^sup>2 + (vz (moved bs (Suc 0)))\<^sup>2)"
  let ?m2 = "max ?m1 ((vx (moved bs 2))\<^sup>2 + (vy (moved bs 2))\<^sup>2 + (vz (moved bs 2))\<^sup>2)"
  have d0: "drift 0 (?k2, 0) = Inr (?d0, ?m0)"
    by (rule drift_moved) (use len in simp_all)
  have d1: "drift (Suc 0) (?d0, ?m0) = Inr (?d1, ?m1)"
    by (rule drift_moved) (use len in simp_all)
  have d2: "drift 2 (?d1, ?m1) = Inr (?d2, ?m2)"
    by (rule drift_moved) (use len in simp_all)
  have drifts: "forEachF [0..<3] drift (?k2, 0) = Inr (?d2, ?m2)"
    by (simp only: upt_3 forEachF.simps d0 d1 d2 sum.case)
  have fin: "?d2 = map (\<lambda>a. if a < 3 then (bs ! a)\<lparr>pos := moved bs a, vel := kicked bs a\<rparr> else bs ! a)
                [0..<length bs]"
  proof (intro nth_equalityI)
    show "length ?d2 = length (map (\<lambda>a. if a < 3 then (bs ! a)\<lparr>pos := moved bs a, vel := kicked bs a\<rparr> else bs ! a)
                [0..<length bs])" by simp
  next
    fix i assume "i < length ?d2"
    then have i: "i < length bs" by simp
    consider "i = 0" | "i = Suc 0" | "i = 2" | "3 \<le> i" by linarith
    then show "?d2 ! i = map (\<lambda>a. if a < 3 then (bs ! a)\<lparr>pos := moved bs a, vel := kicked bs a\<rparr> else bs ! a)
                [0..<length bs] ! i"
      using i len by cases (simp_all add: nth_list_update flip: numeral_2_eq_2)
  qed
  show ?thesis
    unfolding sweepStep_def kicks bindF_def sum.case drifts fin by simp
qed

lemma sweepStep_short:
  assumes "length bs < 3"
  shows "sweepStep bs = Inl TypeError"
proof -
  have "length bs = 0 \<or> length bs = 1 \<or> length bs = 2" using assms by linarith
  then have "kick 0 bs = Inl TypeError"
    by (auto simp: kick_def upt_3 attract_def element_def bindF_def finite_or_def jsdiv_def Let_def)
  then show ?thesis
    by (simp add: sweepStep_def upt_3 bindF_def)
qed

lemma ex_less_3: "(\<exists>a<3. P a) \<longleftrightarrow> P 0 \<or> P (Suc 0) \<or> P 2" for P :: "nat \<Rightarrow> bool"
  by (auto simp: numeral_3_eq_3 less_Suc_eq numeral_2_eq_2)

lemma sweepStep_pass:
  fixes bs :: "'a body_scheme list"
  assumes "3 \<le> length bs"
  shows "\<exists>m. sweepStep bs = Inr (pass bs, m) \<and> length (pass bs) = length bs
           \<and> (m > sim_esc \<longleftrightarrow> escaped (pass bs))"
proof -
  have len: "0 < length bs" "Suc 0 < length bs" "2 < length bs"
    using assms by auto
  have e: "\<not> sim_esc < 0" by (simp add: sim_esc_def)
  show ?thesis
    unfolding pass_def sweepStep_closed[OF assms]
    using len e by (simp add: escaped_def ex_less_3 less_max_iff_disj flip: numeral_2_eq_2)
qed

lemma length_passes:
  fixes bs :: "'a body_scheme list"
  assumes "3 \<le> length bs"
  shows "length ((pass ^^ n) bs) = length bs"
proof (induction n)
  case 0
  show ?case by simp
next
  case (Suc n)
  then have "3 \<le> length ((pass ^^ n) bs)" using assms by simp
  from sweepStep_pass[OF this] Suc show ?case by auto
qed

lemma sweep_from:
  fixes bs :: "'a body_scheme list"
  assumes "3 \<le> length bs"
    and "i \<le> sim_steps"
    and "\<forall>k < i. \<not> escaped ((pass ^^ Suc k) bs)"
  shows "sweep i ((pass ^^ i) bs) =
         Inr (if \<exists>k < sim_steps. escaped ((pass ^^ Suc k) bs)
              then real (LEAST k. escaped ((pass ^^ Suc k) bs)) / real sim_steps
              else 1)"
  using assms(2,3)
proof (induction "sim_steps - i" arbitrary: i)
  case 0
  then have i: "i = sim_steps" by simp
  then have "sweep i ((pass ^^ i) bs) = Inr 1"
    by (subst sweep.simps) simp
  moreover have "\<not> (\<exists>k < sim_steps. escaped ((pass ^^ Suc k) bs))"
    using "0.prems"(2) i by blast
  ultimately show ?case by (simp only: if_False)
next
  case (Suc d)
  then have i: "i < sim_steps" by simp
  let ?cur = "(pass ^^ i) bs"
  have len: "3 \<le> length ?cur" using length_passes[OF assms(1)] assms(1) by simp
  from sweepStep_pass[OF len] obtain m
    where m: "sweepStep ?cur = Inr (pass ?cur, m)" "m > sim_esc \<longleftrightarrow> escaped (pass ?cur)"
    by blast
  have nxt: "pass ?cur = (pass ^^ Suc i) bs" by simp
  show ?case
  proof (cases "escaped ((pass ^^ Suc i) bs)")
    case True
    have "(LEAST k. escaped ((pass ^^ Suc k) bs)) = i"
      using True Suc.prems(2) by (intro Least_equality) (auto simp: not_less[symmetric])
    moreover have "\<exists>k < sim_steps. escaped ((pass ^^ Suc k) bs)"
      using True i by blast
    moreover have "sweep i ?cur = Inr (real i / real sim_steps)"
      using i m True by (subst sweep.simps) simp
    ultimately show ?thesis by simp
  next
    case False
    have prem: "\<forall>k < Suc i. \<not> escaped ((pass ^^ Suc k) bs)"
      using False Suc.prems(2) by (auto simp: less_Suc_eq)
    have "sweep i ?cur = sweep (Suc i) ((pass ^^ Suc i) bs)"
      using i m False by (subst sweep.simps) simp
    also have "\<dots> = Inr (if \<exists>k < sim_steps. escaped ((pass ^^ Suc k) bs)
              then real (LEAST k. escaped ((pass ^^ Suc k) bs)) / real sim_steps
              else 1)"
      using Suc.hyps(2) i by (intro Suc.hyps(1)[OF _ _ prem]) simp_all
    finally show ?thesis .
  qed
qed


lemma sweep_range: "sweep i bs = Inr r \<Longrightarrow> 0 \<le> r \<and> r \<le> 1"
proof (induction i bs rule: sweep.induct)
  case (1 i bs)
  show ?case
  proof (cases "i < sim_steps")
    case False
    with "1.prems" show ?thesis by (subst (asm) sweep.simps) simp
  next
    case True
    then obtain bs' m where st: "sweepStep bs = Inr (bs', m)"
      using "1.prems" by (subst (asm) sweep.simps) (auto split: sum.splits)
    show ?thesis
    proof (cases "m > sim_esc")
      case esc: True
      have "sweep i bs = Inr (real i / real sim_steps)"
        using True st esc by (subst sweep.simps) simp
      with "1.prems" have "r = real i / real sim_steps" by simp
      then show ?thesis using True by (simp add: sim_steps_def)
    next
      case noesc: False
      have "sweep i bs = sweep (i + 1) bs'"
        using True st noesc by (subst sweep.simps) simp
      with "1.prems" have "sweep (i + 1) bs' = Inr r" by simp
      from "1.IH"[OF True st refl noesc this] show ?thesis .
    qed
  qed
qed

lemma applyParam_length: "applyParam bs p v = Inr bs' \<Longrightarrow> length bs' = length bs"
  by (auto simp: applyParam_def bindF_def element_def split: param.splits if_splits field.splits)

lemma applyParam_defined:
  assumes "0 < n" "n \<le> length bs"
  shows "(\<exists>bs'. applyParam bs (MassParam n) v = Inr bs')
       \<and> (\<exists>bs'. applyParam bs (FieldParam f ax n) v = Inr bs')"
  using assms by (simp add: applyParam_def element_def bindF_def)

lemma applyParam_undefined:
  assumes "n = 0 \<or> length bs < n"
  shows "applyParam bs (MassParam n) v = Inl TypeError
       \<and> applyParam bs (FieldParam f ax n) v = Inl TypeError"
  using assms by (auto simp: applyParam_def element_def bindF_def)

lemma simStability_unfold:
  assumes "zoom ex \<noteq> 0"
    and "applyParam (baseConfig ex) (xAxis ex)
           (centerX ex + (real gridX / res - 0.5) * 2 * (baseRange / zoom ex)) = Inr bs1"
    and "applyParam bs1 (yAxis ex)
           (centerY ex + (real gridY / res - 0.5) * 2 * (baseRange / zoom ex)) = Inr bs"
  shows "simStability ex gridX gridY = sweep 0 bs"
  unfolding simStability_def jsdiv_Some[OF assms(1)] finite_or_def bindF_def Let_def
    option.case sum.case assms(2,3) by (rule refl)

lemma simStability_closed:
  assumes "zoom ex \<noteq> 0"
    and "applyParam (baseConfig ex) (xAxis ex)
           (centerX ex + (real gridX / res - 0.5) * 2 * (baseRange / zoom ex)) = Inr bs1"
    and "applyParam bs1 (yAxis ex)
           (centerY ex + (real gridY / res - 0.5) * 2 * (baseRange / zoom ex)) = Inr bs"
    and "3 \<le> length (baseConfig ex)"
  shows "simStability ex gridX gridY =
           Inr (if \<exists>k < 1000. escaped ((pass ^^ Suc k) bs)
                then real (LEAST k. escaped ((pass ^^ Suc k) bs)) / 1000
                else 1)"
proof -
  have len: "3 \<le> length bs"
    using applyParam_length[OF assms(2)] applyParam_length[OF assms(3)] assms(4) by simp
  have "sweep 0 ((pass ^^ 0) bs) =
         Inr (if \<exists>k < sim_steps. escaped ((pass ^^ Suc k) bs)
              then real (LEAST k. escaped ((pass ^^ Suc k) bs)) / real sim_steps
              else 1)"
    by (rule sweep_from[OF len]) simp_all
  then show ?thesis
    unfolding simStability_unfold[OF assms(1-3)] sim_steps_def of_nat_numeral funpow_0 .
qed


lemma simStability_range: "simStability ex gridX gridY = Inr r \<Longrightarrow> 0 \<le> r \<and> r \<le> 1"
  by (auto simp: simStability_def bindF_def Let_def split: sum.splits dest: sweep_range)

lemma pos_pass:
  fixes bs :: "'a body_scheme list"
  assumes "3 \<le> length bs" "a < 3"
  shows "pos (pass bs ! a) = moved bs a"
  using assms unfolding pass_def sweepStep_closed[OF assms(1)] by simp



lemma pull_vector_form:
  "pull bs a b =
     (let r = sub (pos (bs ! b)) (pos (bs ! a));
          d2 = (mag r)\<^sup>2 + 25;
          c = sim_G * mass (bs ! b) / (d2 * sqrt d2)
      in (vx r * c, vy r * c, vz r * c))"
proof -
  have m: "(mag (sub u v))\<^sup>2 = (vx u - vx v) * (vx u - vx v) + (vy u - vy v) * (vy u - vy v)
            + (vz u - vz v) * (vz u - vz v)" for u v
    by (simp add: mag_def sub_def)
  show ?thesis
    unfolding pull_def Let_def m by (simp add: sub_def)
qed

lemma sqrt_softened_values:
  "sqrt (3721 / 144) = 61 / 12" "sqrt (11881 / 144) = 109 / 12" "sqrt (625 / 9) = 25 / 3"
  by (rule real_sqrt_unique; simp add: power2_eq_square)+

lemmas eval_sweep = moved_def kicked_def pull_def Let_def upt_3 sim_G_def sim_dt_def
  sqrt_softened_values

text \<open>
  C2, as the code has it.  The evaluator does not call \<open>integrate\<close>; a pass of its loop
  is a semi-implicit Euler step of its own.  For each of the first three bodies the
  velocity becomes \<open>vel + dt a\<close>, where \<open>a\<close> sums, over the other two bodies \<open>b\<close>, the pull
  \<open>r G m\<^sub>b / (d2 sqrt d2)\<close> with \<open>r = pos\<^sub>b - pos\<^sub>a\<close> and \<open>d2 = |r|\<^sup>2 + 25\<close> (softened in
  magnitude and in direction), all pulls being computed from the positions before the
  pass; then the position becomes \<open>pos + dt vel\<close> with the new velocity.  Masses and
  further bodies are untouched; \<open>dt = 0.2\<close>, \<open>G = 1000\<close>.
\<close>

theorem sweepStep_semi_implicit_euler:
  fixes bs :: "'a body_scheme list"
  assumes "3 \<le> length bs"
  shows "sweepStep bs =
         Inr (map (\<lambda>a. if a < 3 then (bs ! a)\<lparr>pos := moved bs a, vel := kicked bs a\<rparr> else bs ! a)
                [0..<length bs],
              max (max (max 0 ((vx (moved bs 0))\<^sup>2 + (vy (moved bs 0))\<^sup>2 + (vz (moved bs 0))\<^sup>2))
                            ((vx (moved bs 1))\<^sup>2 + (vy (moved bs 1))\<^sup>2 + (vz (moved bs 1))\<^sup>2))
                            ((vx (moved bs 2))\<^sup>2 + (vy (moved bs 2))\<^sup>2 + (vz (moved bs 2))\<^sup>2))
       \<and> (\<forall>a. moved bs a = add (pos (bs ! a)) (mult (kicked bs a) sim_dt))
       \<and> (\<forall>a. kicked bs a =
              add (vel (bs ! a))
                (mult (Vector (\<Sum>b\<leftarrow>filter (\<lambda>b. b \<noteq> a) [0..<3]. fst (pull bs a b))
                              (\<Sum>b\<leftarrow>filter (\<lambda>b. b \<noteq> a) [0..<3]. fst (snd (pull bs a b)))
                              (\<Sum>b\<leftarrow>filter (\<lambda>b. b \<noteq> a) [0..<3]. snd (snd (pull bs a b))))
                      sim_dt))
       \<and> (\<forall>a b. pull bs a b =
              (let r = sub (pos (bs ! b)) (pos (bs ! a));
                   d2 = (mag r)\<^sup>2 + 25;
                   c = sim_G * mass (bs ! b) / (d2 * sqrt d2)
               in (vx r * c, vy r * c, vz r * c)))
       \<and> sim_dt = 0.2 \<and> sim_G = 1000"
  using sweepStep_closed[OF assms] pull_vector_form[of bs]
  by (simp add: moved_def kicked_def add_def mult_def sim_dt_def sim_G_def)

theorem sweepStep_semi_implicit_euler_witness:
  "sweepStep [\<lparr>pos = Vector 0 0 0, vel = Vector 0 0 0, mass = 1\<rparr>,
      \<lparr>pos = Vector (11 / 12) 0 0, vel = Vector 0 0 0, mass = 1\<rparr>,
      \<lparr>pos = Vector (91 / 12) 0 0, vel = Vector 0 0 0, mass = (1::real)\<rparr>] = Inr ([\<lparr>pos = Vector (201027398400 / 293946977449) 0 0,
        vel = Vector (1005136992000 / 293946977449) 0 0, mass = 1\<rparr>,
      \<lparr>pos = Vector (1869740711 / 1702357500) 0 0,
        vel = Vector (25770528 / 28372625) 0 0, mass = 1\<rparr>,
      \<lparr>pos = Vector (65247954151 / 9712717500) 0 0,
        vel = Vector (- (700568352 / 161878625)) 0 0, mass = 1\<rparr>], 4257295520890998130801 / 94336881234806250000)"
proof -
  have l: "3 \<le> length [\<lparr>pos = Vector 0 0 0, vel = Vector 0 0 0, mass = 1\<rparr>,
      \<lparr>pos = Vector (11 / 12) 0 0, vel = Vector 0 0 0, mass = 1\<rparr>,
      \<lparr>pos = Vector (91 / 12) 0 0, vel = Vector 0 0 0, mass = (1::real)\<rparr>]" by simp
  have m0: "moved [\<lparr>pos = Vector 0 0 0, vel = Vector 0 0 0, mass = 1\<rparr>,
      \<lparr>pos = Vector (11 / 12) 0 0, vel = Vector 0 0 0, mass = 1\<rparr>,
      \<lparr>pos = Vector (91 / 12) 0 0, vel = Vector 0 0 0, mass = (1::real)\<rparr>] 0 = Vector (201027398400 / 293946977449) 0 0"
    and m1: "moved [\<lparr>pos = Vector 0 0 0, vel = Vector 0 0 0, mass = 1\<rparr>,
      \<lparr>pos = Vector (11 / 12) 0 0, vel = Vector 0 0 0, mass = 1\<rparr>,
      \<lparr>pos = Vector (91 / 12) 0 0, vel = Vector 0 0 0, mass = (1::real)\<rparr>] (Suc 0) = Vector (1869740711 / 1702357500) 0 0"
    and m2: "moved [\<lparr>pos = Vector 0 0 0, vel = Vector 0 0 0, mass = 1\<rparr>,
      \<lparr>pos = Vector (11 / 12) 0 0, vel = Vector 0 0 0, mass = 1\<rparr>,
      \<lparr>pos = Vector (91 / 12) 0 0, vel = Vector 0 0 0, mass = (1::real)\<rparr>] 2 = Vector (65247954151 / 9712717500) 0 0"
    and k0: "kicked [\<lparr>pos = Vector 0 0 0, vel = Vector 0 0 0, mass = 1\<rparr>,
      \<lparr>pos = Vector (11 / 12) 0 0, vel = Vector 0 0 0, mass = 1\<rparr>,
      \<lparr>pos = Vector (91 / 12) 0 0, vel = Vector 0 0 0, mass = (1::real)\<rparr>] 0 = Vector (1005136992000 / 293946977449) 0 0"
    and k1: "kicked [\<lparr>pos = Vector 0 0 0, vel = Vector 0 0 0, mass = 1\<rparr>,
      \<lparr>pos = Vector (11 / 12) 0 0, vel = Vector 0 0 0, mass = 1\<rparr>,
      \<lparr>pos = Vector (91 / 12) 0 0, vel = Vector 0 0 0, mass = (1::real)\<rparr>] (Suc 0) = Vector (25770528 / 28372625) 0 0"
    and k2: "kicked [\<lparr>pos = Vector 0 0 0, vel = Vector 0 0 0, mass = 1\<rparr>,
      \<lparr>pos = Vector (11 / 12) 0 0, vel = Vector 0 0 0, mass = 1\<rparr>,
      \<lparr>pos = Vector (91 / 12) 0 0, vel = Vector 0 0 0, mass = (1::real)\<rparr>] 2 = Vector (- (700568352 / 161878625)) 0 0"
    by (simp_all add: eval_sweep)
  from sweepStep_semi_implicit_euler[OF l]
  have "sweepStep [\<lparr>pos = Vector 0 0 0, vel = Vector 0 0 0, mass = 1\<rparr>,
      \<lparr>pos = Vector (11 / 12) 0 0, vel = Vector 0 0 0, mass = 1\<rparr>,
      \<lparr>pos = Vector (91 / 12) 0 0, vel = Vector 0 0 0, mass = (1::real)\<rparr>] =
         Inr (map (\<lambda>a. if a < 3 then ([\<lparr>pos = Vector 0 0 0, vel = Vector 0 0 0, mass = 1\<rparr>,
      \<lparr>pos = Vector (11 / 12) 0 0, vel = Vector 0 0 0, mass = 1\<rparr>,
      \<lparr>pos = Vector (91 / 12) 0 0, vel = Vector 0 0 0, mass = (1::real)\<rparr>] ! a)\<lparr>pos := moved [\<lparr>pos = Vector 0 0 0, vel = Vector 0 0 0, mass = 1\<rparr>,
      \<lparr>pos = Vector (11 / 12) 0 0, vel = Vector 0 0 0, mass = 1\<rparr>,
      \<lparr>pos = Vector (91 / 12) 0 0, vel = Vector 0 0 0, mass = (1::real)\<rparr>] a, vel := kicked [\<lparr>pos = Vector 0 0 0, vel = Vector 0 0 0, mass = 1\<rparr>,
      \<lparr>pos = Vector (11 / 12) 0 0, vel = Vector 0 0 0, mass = 1\<rparr>,
      \<lparr>pos = Vector (91 / 12) 0 0, vel = Vector 0 0 0, mass = (1::real)\<rparr>] a\<rparr> else [\<lparr>pos = Vector 0 0 0, vel = Vector 0 0 0, mass = 1\<rparr>,
      \<lparr>pos = Vector (11 / 12) 0 0, vel = Vector 0 0 0, mass = 1\<rparr>,
      \<lparr>pos = Vector (91 / 12) 0 0, vel = Vector 0 0 0, mass = (1::real)\<rparr>] ! a)
                [0..<length [\<lparr>pos = Vector 0 0 0, vel = Vector 0 0 0, mass = 1\<rparr>,
      \<lparr>pos = Vector (11 / 12) 0 0, vel = Vector 0 0 0, mass = 1\<rparr>,
      \<lparr>pos = Vector (91 / 12) 0 0, vel = Vector 0 0 0, mass = (1::real)\<rparr>]],
              max (max (max 0 ((vx (moved [\<lparr>pos = Vector 0 0 0, vel = Vector 0 0 0, mass = 1\<rparr>,
      \<lparr>pos = Vector (11 / 12) 0 0, vel = Vector 0 0 0, mass = 1\<rparr>,
      \<lparr>pos = Vector (91 / 12) 0 0, vel = Vector 0 0 0, mass = (1::real)\<rparr>] 0))\<^sup>2 + (vy (moved [\<lparr>pos = Vector 0 0 0, vel = Vector 0 0 0, mass = 1\<rparr>,
      \<lparr>pos = Vector (11 / 12) 0 0, vel = Vector 0 0 0, mass = 1\<rparr>,
      \<lparr>pos = Vector (91 / 12) 0 0, vel = Vector 0 0 0, mass = (1::real)\<rparr>] 0))\<^sup>2 + (vz (moved [\<lparr>pos = Vector 0 0 0, vel = Vector 0 0 0, mass = 1\<rparr>,
      \<lparr>pos = Vector (11 / 12) 0 0, vel = Vector 0 0 0, mass = 1\<rparr>,
      \<lparr>pos = Vector (91 / 12) 0 0, vel = Vector 0 0 0, mass = (1::real)\<rparr>] 0))\<^sup>2))
                            ((vx (moved [\<lparr>pos = Vector 0 0 0, vel = Vector 0 0 0, mass = 1\<rparr>,
      \<lparr>pos = Vector (11 / 12) 0 0, vel = Vector 0 0 0, mass = 1\<rparr>,
      \<lparr>pos = Vector (91 / 12) 0 0, vel = Vector 0 0 0, mass = (1::real)\<rparr>] 1))\<^sup>2 + (vy (moved [\<lparr>pos = Vector 0 0 0, vel = Vector 0 0 0, mass = 1\<rparr>,
      \<lparr>pos = Vector (11 / 12) 0 0, vel = Vector 0 0 0, mass = 1\<rparr>,
      \<lparr>pos = Vector (91 / 12) 0 0, vel = Vector 0 0 0, mass = (1::real)\<rparr>] 1))\<^sup>2 + (vz (moved [\<lparr>pos = Vector 0 0 0, vel = Vector 0 0 0, mass = 1\<rparr>,
      \<lparr>pos = Vector (11 / 12) 0 0, vel = Vector 0 0 0, mass = 1\<rparr>,
      \<lparr>pos = Vector (91 / 12) 0 0, vel = Vector 0 0 0, mass = (1::real)\<rparr>] 1))\<^sup>2))
                            ((vx (moved [\<lparr>pos = Vector 0 0 0, vel = Vector 0 0 0, mass = 1\<rparr>,
      \<lparr>pos = Vector (11 / 12) 0 0, vel = Vector 0 0 0, mass = 1\<rparr>,
      \<lparr>pos = Vector (91 / 12) 0 0, vel = Vector 0 0 0, mass = (1::real)\<rparr>] 2))\<^sup>2 + (vy (moved [\<lparr>pos = Vector 0 0 0, vel = Vector 0 0 0, mass = 1\<rparr>,
      \<lparr>pos = Vector (11 / 12) 0 0, vel = Vector 0 0 0, mass = 1\<rparr>,
      \<lparr>pos = Vector (91 / 12) 0 0, vel = Vector 0 0 0, mass = (1::real)\<rparr>] 2))\<^sup>2 + (vz (moved [\<lparr>pos = Vector 0 0 0, vel = Vector 0 0 0, mass = 1\<rparr>,
      \<lparr>pos = Vector (11 / 12) 0 0, vel = Vector 0 0 0, mass = 1\<rparr>,
      \<lparr>pos = Vector (91 / 12) 0 0, vel = Vector 0 0 0, mass = (1::real)\<rparr>] 2))\<^sup>2))"
    by blast
  then show ?thesis
    by (simp add: m0 m1 m2 k0 k1 k2 upt_3 power2_eq_square flip: numeral_2_eq_2)
qed

text \<open>
  C2 as the specification words it fails.  For three bodies at rest on a line, the pass
  of the evaluator and the engine's \<open>integrate\<close> with the same \<open>G\<close>, softening and
  \<open>dt = 0.2\<close> produce different states.
\<close>

theorem sweep_is_not_rk4_counterexample:
  "sweepStep [\<lparr>pos = Vector 0 0 0, vel = Vector 0 0 0, mass = 1\<rparr>,
      \<lparr>pos = Vector (11 / 12) 0 0, vel = Vector 0 0 0, mass = 1\<rparr>,
      \<lparr>pos = Vector (91 / 12) 0 0, vel = Vector 0 0 0, mass = (1::real)\<rparr>] = Inr ([\<lparr>pos = Vector (201027398400 / 293946977449) 0 0,
        vel = Vector (1005136992000 / 293946977449) 0 0, mass = 1\<rparr>,
      \<lparr>pos = Vector (1869740711 / 1702357500) 0 0,
        vel = Vector (25770528 / 28372625) 0 0, mass = 1\<rparr>,
      \<lparr>pos = Vector (65247954151 / 9712717500) 0 0,
        vel = Vector (- (700568352 / 161878625)) 0 0, mass = 1\<rparr>], 4257295520890998130801 / 94336881234806250000)
   \<and> integrate app_G app_softening sim_dt [\<lparr>pos = Vector 0 0 0, vel = Vector 0 0 0, mass = 1\<rparr>,
      \<lparr>pos = Vector (11 / 12) 0 0, vel = Vector 0 0 0, mass = 1\<rparr>,
      \<lparr>pos = Vector (91 / 12) 0 0, vel = Vector 0 0 0, mass = (1::real)\<rparr>] \<noteq> Some [\<lparr>pos = Vector (201027398400 / 293946977449) 0 0,
        vel = Vector (1005136992000 / 293946977449) 0 0, mass = 1\<rparr>,
      \<lparr>pos = Vector (1869740711 / 1702357500) 0 0,
        vel = Vector (25770528 / 28372625) 0 0, mass = 1\<rparr>,
      \<lparr>pos = Vector (65247954151 / 9712717500) 0 0,
        vel = Vector (- (700568352 / 161878625)) 0 0, mass = 1\<rparr>]
   \<and> map_option (\<lambda>r. pos (r ! 0)) (integrate app_G app_softening sim_dt [\<lparr>pos = Vector 0 0 0, vel = Vector 0 0 0, mass = 1\<rparr>,
      \<lparr>pos = Vector (11 / 12) 0 0, vel = Vector 0 0 0, mass = 1\<rparr>,
      \<lparr>pos = Vector (91 / 12) 0 0, vel = Vector 0 0 0, mass = (1::real)\<rparr>])
       = Some (Vector (1584256242420283718253720313586965212788872607909274240 / 1527184068958014883620992908651778929989894741760158961) 0 0)"
proof -
  have l: "3 \<le> length [\<lparr>pos = Vector 0 0 0, vel = Vector 0 0 0, mass = 1\<rparr>,
      \<lparr>pos = Vector (11 / 12) 0 0, vel = Vector 0 0 0, mass = 1\<rparr>,
      \<lparr>pos = Vector (91 / 12) 0 0, vel = Vector 0 0 0, mass = (1::real)\<rparr>]" by simp
  have m0: "moved [\<lparr>pos = Vector 0 0 0, vel = Vector 0 0 0, mass = 1\<rparr>,
      \<lparr>pos = Vector (11 / 12) 0 0, vel = Vector 0 0 0, mass = 1\<rparr>,
      \<lparr>pos = Vector (91 / 12) 0 0, vel = Vector 0 0 0, mass = (1::real)\<rparr>] 0 = Vector (201027398400 / 293946977449) 0 0"
    and m1: "moved [\<lparr>pos = Vector 0 0 0, vel = Vector 0 0 0, mass = 1\<rparr>,
      \<lparr>pos = Vector (11 / 12) 0 0, vel = Vector 0 0 0, mass = 1\<rparr>,
      \<lparr>pos = Vector (91 / 12) 0 0, vel = Vector 0 0 0, mass = (1::real)\<rparr>] (Suc 0) = Vector (1869740711 / 1702357500) 0 0"
    and m2: "moved [\<lparr>pos = Vector 0 0 0, vel = Vector 0 0 0, mass = 1\<rparr>,
      \<lparr>pos = Vector (11 / 12) 0 0, vel = Vector 0 0 0, mass = 1\<rparr>,
      \<lparr>pos = Vector (91 / 12) 0 0, vel = Vector 0 0 0, mass = (1::real)\<rparr>] 2 = Vector (65247954151 / 9712717500) 0 0"
    and k0: "kicked [\<lparr>pos = Vector 0 0 0, vel = Vector 0 0 0, mass = 1\<rparr>,
      \<lparr>pos = Vector (11 / 12) 0 0, vel = Vector 0 0 0, mass = 1\<rparr>,
      \<lparr>pos = Vector (91 / 12) 0 0, vel = Vector 0 0 0, mass = (1::real)\<rparr>] 0 = Vector (1005136992000 / 293946977449) 0 0"
    and k1: "kicked [\<lparr>pos = Vector 0 0 0, vel = Vector 0 0 0, mass = 1\<rparr>,
      \<lparr>pos = Vector (11 / 12) 0 0, vel = Vector 0 0 0, mass = 1\<rparr>,
      \<lparr>pos = Vector (91 / 12) 0 0, vel = Vector 0 0 0, mass = (1::real)\<rparr>] (Suc 0) = Vector (25770528 / 28372625) 0 0"
    and k2: "kicked [\<lparr>pos = Vector 0 0 0, vel = Vector 0 0 0, mass = 1\<rparr>,
      \<lparr>pos = Vector (11 / 12) 0 0, vel = Vector 0 0 0, mass = 1\<rparr>,
      \<lparr>pos = Vector (91 / 12) 0 0, vel = Vector 0 0 0, mass = (1::real)\<rparr>] 2 = Vector (- (700568352 / 161878625)) 0 0"
    by (simp_all add: eval_sweep)
  have sw: "sweepStep [\<lparr>pos = Vector 0 0 0, vel = Vector 0 0 0, mass = 1\<rparr>,
      \<lparr>pos = Vector (11 / 12) 0 0, vel = Vector 0 0 0, mass = 1\<rparr>,
      \<lparr>pos = Vector (91 / 12) 0 0, vel = Vector 0 0 0, mass = (1::real)\<rparr>] = Inr ([\<lparr>pos = Vector (201027398400 / 293946977449) 0 0,
        vel = Vector (1005136992000 / 293946977449) 0 0, mass = 1\<rparr>,
      \<lparr>pos = Vector (1869740711 / 1702357500) 0 0,
        vel = Vector (25770528 / 28372625) 0 0, mass = 1\<rparr>,
      \<lparr>pos = Vector (65247954151 / 9712717500) 0 0,
        vel = Vector (- (700568352 / 161878625)) 0 0, mass = 1\<rparr>], 4257295520890998130801 / 94336881234806250000)"
    unfolding sweepStep_closed[OF l]
    by (simp add: m0 m1 m2 k0 k1 k2 upt_3 power2_eq_square flip: numeral_2_eq_2)
  have rk: "integrate app_G app_softening sim_dt [\<lparr>pos = Vector 0 0 0, vel = Vector 0 0 0, mass = 1\<rparr>,
      \<lparr>pos = Vector (11 / 12) 0 0, vel = Vector 0 0 0, mass = 1\<rparr>,
      \<lparr>pos = Vector (91 / 12) 0 0, vel = Vector 0 0 0, mass = (1::real)\<rparr>] \<noteq> Some [\<lparr>pos = Vector (201027398400 / 293946977449) 0 0,
        vel = Vector (1005136992000 / 293946977449) 0 0, mass = 1\<rparr>,
      \<lparr>pos = Vector (1869740711 / 1702357500) 0 0,
        vel = Vector (25770528 / 28372625) 0 0, mass = 1\<rparr>,
      \<lparr>pos = Vector (65247954151 / 9712717500) 0 0,
        vel = Vector (- (700568352 / 161878625)) 0 0, mass = 1\<rparr>]"
    by (simp add: integrate_def eval_accel stage_def mapi_def commit_def
        app_G_def app_softening_def sim_dt_def)
  have rk0: "map_option (\<lambda>r. pos (r ! 0)) (integrate app_G app_softening sim_dt [\<lparr>pos = Vector 0 0 0, vel = Vector 0 0 0, mass = 1\<rparr>,
      \<lparr>pos = Vector (11 / 12) 0 0, vel = Vector 0 0 0, mass = 1\<rparr>,
      \<lparr>pos = Vector (91 / 12) 0 0, vel = Vector 0 0 0, mass = (1::real)\<rparr>])
       = Some (Vector (1584256242420283718253720313586965212788872607909274240 / 1527184068958014883620992908651778929989894741760158961) 0 0)"
    by (simp add: integrate_def eval_accel stage_def mapi_def commit_def
        app_G_def app_softening_def sim_dt_def)
  show ?thesis using sw rk rk0 by blast
qed

section \<open>Double precision in the sweep\<close>

text \<open>The binary exponent, and the values that rounding leaves as they are.\<close>

lemma floor_log2:
  assumes "r \<noteq> 0"
  shows "2 powi \<lfloor>log 2 \<bar>r\<bar>\<rfloor> \<le> \<bar>r\<bar>" "\<bar>r\<bar> < 2 powi (\<lfloor>log 2 \<bar>r\<bar>\<rfloor> + 1)"
proof -
  have pos: "0 < \<bar>r\<bar>" using assms by simp
  have "2 powr real_of_int \<lfloor>log 2 \<bar>r\<bar>\<rfloor> \<le> \<bar>r\<bar>
        \<and> \<bar>r\<bar> < 2 powr real_of_int (\<lfloor>log 2 \<bar>r\<bar>\<rfloor> + 1)"
    using floor_log_eq_powr_iff[of "\<bar>r\<bar>" 2 "\<lfloor>log 2 \<bar>r\<bar>\<rfloor>"] pos by simp
  then show "2 powi \<lfloor>log 2 \<bar>r\<bar>\<rfloor> \<le> \<bar>r\<bar>" "\<bar>r\<bar> < 2 powi (\<lfloor>log 2 \<bar>r\<bar>\<rfloor> + 1)"
    by (simp_all only: powr_real_of_int'[of 2, simplified])
qed

lemma expo_eq:
  assumes "2 powi e \<le> \<bar>r\<bar>" "\<bar>r\<bar> < 2 powi (e + 1)" "- 1022 \<le> e"
  shows "expo r = e"
proof -
  have pos: "0 < \<bar>r\<bar>" using assms(1) by (smt (verit) zero_less_power_int)
  have "2 powr real_of_int e \<le> \<bar>r\<bar> \<and> \<bar>r\<bar> < 2 powr real_of_int (e + 1)"
    using assms(1,2) by (simp only: powr_real_of_int'[of 2, simplified])
  then have "\<lfloor>log 2 \<bar>r\<bar>\<rfloor> = e"
    using floor_log_eq_powr_iff[of "\<bar>r\<bar>" 2 e] pos by simp
  then show ?thesis using assms(3) by (simp add: expo_def)
qed

lemma ties_even_int [simp]: "ties_even (of_int k) = k"
  by (simp add: ties_even_def)

lemma nearest_exact:
  assumes r: "r = of_int m * 2 powi k" and m: "\<bar>m\<bar> < 2 ^ 53" and k: "- 1074 \<le> k"
  shows "nearest r = r"
proof (cases "r = 0")
  case True
  then show ?thesis by (simp add: nearest_def)
next
  case False
  define L where "L = \<lfloor>log 2 \<bar>r\<bar>\<rfloor>"
  have "\<bar>r\<bar> = of_int \<bar>m\<bar> * 2 powi k" by (simp add: r abs_mult)
  also have "\<dots> < 2 ^ 53 * 2 powi k"
    using m by (intro mult_strict_right_mono) (simp_all add: of_int_less_iff[of "\<bar>m\<bar>" "2 ^ 53", where 'a = real, simplified])
  also have "\<dots> = 2 powi (k + 53)" by (simp add: power_int_add)
  finally have up: "\<bar>r\<bar> < 2 powi (k + 53)" .
  have "2 powi L \<le> \<bar>r\<bar>" unfolding L_def using floor_log2(1)[OF False] .
  with up have "(2::real) powi L < 2 powi (k + 53)" by linarith
  then have "L < k + 53"
    using power_int_increasing[of "k + 53" L "2::real"] by (cases "L < k + 53") simp_all
  then have e: "expo r - 52 \<le> k" using k by (simp add: expo_def L_def)
  define E where "E = expo r - 52"
  define j where "j = nat (k - E)"
  have "k = E + int j" using e by (simp add: j_def E_def)
  then have "(2::real) powi k = 2 powi E * 2 ^ j" by (simp add: power_int_add)
  then have rk: "r = of_int (m * 2 ^ j) * 2 powi E" by (simp add: r)
  have u: "ulp r = 2 powi E" by (simp add: ulp_def E_def)
  have "r / 2 powi E = of_int (m * 2 ^ j) * 2 powi E / 2 powi E" using rk by simp
  then have q: "r / 2 powi E = of_int (m * 2 ^ j)" by simp
  have "nearest r = of_int (m * 2 ^ j) * 2 powi E"
    using False unfolding nearest_def u q ties_even_int by simp
  then show ?thesis using rk by simp
qed

lemma nearest_int: "\<bar>m\<bar> < 2 ^ 53 \<Longrightarrow> nearest (of_int m) = of_int m"
  using nearest_exact[of "of_int m" m 0] by simp


lemma sqrt_25: "sqrt 25 = 5"
  by (rule real_sqrt_unique) simp_all

lemma round64_25: "round64 s 25 = Fin 25" "round64 s 5 = Fin 5"
  using nearest_int[of 25] nearest_int[of 5] by (simp_all add: round64_def)

lemma round64_0 [simp]: "round64 s 0 = zero s"
  by (simp add: round64_def)

lemma d_add_NaN [simp]: "d_add NaN v = NaN" "d_add v NaN = NaN"
  by (simp_all add: d_add_def)

lemma attract_d_NaN:
  assumes "a < length bs" "b < length bs"
  shows "attract_d bs a b (NaN, NaN, NaN) = Inr (NaN, NaN, NaN)"
  using assms by (simp add: attract_d_def element_def bindF_def Let_def)

lemma zero_diff: "d_sub (Fin r) (Fin r) = Fin 0"
  by (simp add: d_sub_def d_neg_def d_add_def isInfinite_def negative_def valueOf_def zero_def)

lemma attract_d_heavy_pair:
  "attract_d heavy_pair 0 (Suc 0) (Fin 0, Fin 0, Fin 0) = Inr (NaN, NaN, NaN)"
proof -
  define M :: real where "M = 2 ^ 1020"
  have h: "heavy_pair =
     [\<lparr>pos_d = Vector_d (Fin 1) (Fin 2) (Fin 3), vel_d = Vector_d (Fin 0) (Fin 0) (Fin 0),
       mass_d = Fin 20\<rparr>,
      \<lparr>pos_d = Vector_d (Fin 1) (Fin 2) (Fin 3), vel_d = Vector_d (Fin 0) (Fin 5) (Fin 0),
       mass_d = Fin M\<rparr>,
      \<lparr>pos_d = Vector_d (Fin 0) (Fin (- 150)) (Fin 50), vel_d = Vector_d (Fin 4) (Fin 0) (Fin 0),
       mass_d = Fin 15\<rparr>]"
    by (simp only: heavy_pair_def M_def)
  have sq: "d_mul (Fin 0) (Fin 0) = Fin 0"
    by (simp add: d_mul_def isInfinite_def isZero_def negative_def valueOf_def zero_def)
  have s0: "d_add (Fin 0) (Fin 0) = Fin 0"
    by (simp add: d_add_def isInfinite_def negative_def valueOf_def zero_def)
  have d2: "d_add (Fin 0) (Fin 25) = Fin 25"
    by (simp add: d_add_def isInfinite_def negative_def valueOf_def round64_25)
  have d: "d_sqrt (Fin 25) = Fin 5"
    by (simp add: d_sqrt_def sqrt_25 round64_25)
  have gm: "d_mul (Fin sim_G) (Fin M) = PInf"
    by (simp add: d_mul_def isInfinite_def isZero_def negative_def valueOf_def sim_G_def
        round64_def infinity_def M_def)
  have f: "d_div PInf (Fin 25) = PInf"
    by (simp add: d_div_def isInfinite_def isZero_def negative_def infinity_def)
  have u: "d_div (Fin 0) (Fin 5) = Fin 0"
    by (simp add: d_div_def isInfinite_def isZero_def negative_def valueOf_def zero_def)
  have p: "d_mul PInf (Fin 0) = NaN"
    by (simp add: d_mul_def isInfinite_def isZero_def)
  show ?thesis
    by (simp add: attract_d_def h element_def bindF_def Let_def zero_diff sq s0 d2 d gm f u p)
qed

lemma accel_heavy_pair:
  "forEachF [0..<3] (attract_d heavy_pair 0) (Fin 0, Fin 0, Fin 0) = Inr (NaN, NaN, NaN)"
proof -
  have u: "[0..<3] = [0, Suc 0, 2]" by (simp add: upt_rec)
  have a0: "attract_d heavy_pair 0 0 acc = Inr acc" for acc
    by (simp add: attract_d_def split: prod.splits)
  have a2: "attract_d heavy_pair 0 2 (NaN, NaN, NaN) = Inr (NaN, NaN, NaN)"
    by (rule attract_d_NaN) (simp_all add: heavy_pair_def)
  show ?thesis
    unfolding u by (simp add: a0 a2 attract_d_heavy_pair)
qed

lemma finite_heavy_pair: "finiteBody (heavy_pair ! 0)" "finiteBody (heavy_pair ! Suc 0)" "finiteBody (heavy_pair ! 2)"
  using nearest_int[of 1] nearest_int[of 2] nearest_int[of 3] nearest_int[of 20] nearest_int[of 15]
    nearest_int[of 4] nearest_int[of 5] nearest_int[of 50] nearest_int[of "- 150"]
    nearest_exact[of "2 ^ 1020" 1 1020]
  by (simp_all add: heavy_pair_def finiteBody_def finiteVector_def isDouble_def isFinite_def valueOf_def
      nearest_def)

text \<open>The arithmetic at some known values: ties, overflow, underflow, zero divisors.\<close>

lemma nearest_eval:
  assumes "2 powi e \<le> \<bar>r\<bar>" "\<bar>r\<bar> < 2 powi (e + 1)" "- 1022 \<le> e"
  shows "nearest r = of_int (ties_even (r / 2 powi (e - 52))) * 2 powi (e - 52)"
proof -
  have "r \<noteq> 0" using assms(1) by (smt (verit) zero_less_power_int)
  then show ?thesis by (simp add: nearest_def ulp_def expo_eq[OF assms])
qed

lemma expo_subnormal:
  assumes "r \<noteq> 0" "\<bar>r\<bar> < 2 powi (- 1022)"
  shows "expo r = - 1022"
proof -
  have "(2::real) powi \<lfloor>log 2 \<bar>r\<bar>\<rfloor> < 2 powi (- 1022)"
    using floor_log2(1)[OF assms(1)] assms(2) by linarith
  then have "\<lfloor>log 2 \<bar>r\<bar>\<rfloor> < - 1022"
    using power_int_increasing[of "- 1022" "\<lfloor>log 2 \<bar>r\<bar>\<rfloor>" "2::real"]
    by (cases "\<lfloor>log 2 \<bar>r\<bar>\<rfloor> < - 1022") simp_all
  then show ?thesis by (simp add: expo_def)
qed

lemma double_examples:
  "d_add (Fin (2 ^ 53)) (Fin 1) = Fin (2 ^ 53)"
  "d_add (Fin (2 ^ 53)) (Fin 3) = Fin (2 ^ 53 + 4)"
  "d_mul (Fin (2 ^ 1023)) (Fin 2) = PInf"
  "d_div (Fin 1) (Fin 0) = PInf"
  "d_div (Fin 1) NegZero = NInf"
  "d_div (Fin 0) (Fin 0) = NaN"
  "d_sub PInf PInf = NaN"
  "d_mul (Fin (2 powi - 1074)) (Fin (1 / 2)) = Fin 0"
proof -
  have a: "nearest (2 ^ 53 + 1) = 2 ^ 53"
    by (subst nearest_eval[where e = 53]) (simp_all add: ties_even_def)
  have b: "nearest (2 ^ 53 + 3) = 2 ^ 53 + 4"
    by (subst nearest_eval[where e = 53]) (simp_all add: ties_even_def)
  have c: "nearest (2 powi - 1074 * (1 / 2)) = 0"
    using expo_subnormal[of "2 powi - 1074 * (1 / 2)"]
    by (simp add: nearest_def ulp_def ties_even_def power_int_minus)
  show "d_add (Fin (2 ^ 53)) (Fin 1) = Fin (2 ^ 53)"
    using a by (simp add: d_add_def isInfinite_def valueOf_def round64_def)
  show "d_add (Fin (2 ^ 53)) (Fin 3) = Fin (2 ^ 53 + 4)"
    using b by (simp add: d_add_def isInfinite_def valueOf_def round64_def)
  show "d_mul (Fin (2 ^ 1023)) (Fin 2) = PInf"
    by (simp add: d_mul_def isInfinite_def isZero_def valueOf_def negative_def round64_def infinity_def)
  show "d_div (Fin 1) (Fin 0) = PInf" "d_div (Fin 1) NegZero = NInf" "d_div (Fin 0) (Fin 0) = NaN"
    by (simp_all add: d_div_def isInfinite_def isZero_def negative_def infinity_def)
  show "d_sub PInf PInf = NaN"
    by (simp add: d_sub_def d_neg_def d_add_def isInfinite_def)
  show "d_mul (Fin (2 powi - 1074)) (Fin (1 / 2)) = Fin 0"
    using c by (simp add: d_mul_def isInfinite_def isZero_def valueOf_def negative_def round64_def zero_def)
qed


text \<open>
  C7.  There is an input of the sweep, three bodies with finite fields and positive masses,
  in which two bodies coincide exactly and the acceleration that the loop over \<open>b\<close>
  computes for one of them is non-finite.  For \<open>heavy_pair\<close>, bodies 0 and 1 are both at
  \<open>(1, 2, 3)\<close> and the mass of body 1 is \<open>2 ^ 1020\<close>: \<open>dx = dy = dz = 0\<close>, \<open>d2 = 25\<close>,
  \<open>d = 5\<close>, \<open>G * mass = 1000 * 2 ^ 1020\<close> overflows to \<open>Infinity\<close>, so \<open>f = Infinity\<close>, and
  \<open>f * (dx / d) = Infinity * 0\<close> is \<open>NaN\<close>, which stays in \<open>ax\<close>, \<open>ay\<close> and \<open>az\<close>.  The loop has
  no case for zero separation: the coinciding body is handled by the same expressions.
\<close>

theorem coincident_bodies_nonfinite_acceleration:
  "\<exists>bs a b ax ay az.
      length bs = 3 \<and> finiteBody (bs ! 0) \<and> finiteBody (bs ! 1) \<and> finiteBody (bs ! 2)
    \<and> a < 3 \<and> b < 3 \<and> a \<noteq> b \<and> pos_d (bs ! a) = pos_d (bs ! b)
    \<and> forEachF [0..<3] (attract_d bs a) (Fin 0, Fin 0, Fin 0) = Inr (ax, ay, az)
    \<and> \<not> isFinite ax \<and> \<not> isFinite ay \<and> \<not> isFinite az"
proof -
  have "length heavy_pair = 3" "pos_d (heavy_pair ! 0) = pos_d (heavy_pair ! 1)" "\<not> isFinite NaN"
    by (simp_all add: heavy_pair_def isFinite_def)
  then show ?thesis
    using accel_heavy_pair finite_heavy_pair
    by (intro exI[of _ heavy_pair] exI[of _ "0::nat"] exI[of _ "1::nat"] exI[of _ NaN]) simp
qed


end
